theory Spec2Isabelle
  imports Complex_Main "HOL-Library.Word" "HOL-Library.Monad_Syntax"
begin

section \<open>Machine types and checked memory access\<close>

text \<open>
  The sketch targets the Arduino Uno R4: \<open>byte\<close> is an unsigned 8-bit value,
  \<open>unsigned long\<close> an unsigned 32-bit value, both with wrap-around arithmetic.
  A C \<open>int\<close> is modelled as an unbounded \<open>int\<close>; the places where a value is
  cast to a narrower or unsigned type (\<open>(byte)\<close>, \<open>(unsigned long)\<close>) are written
  out with \<open>word_of_int\<close>, and \<open>INT_MIN\<close> and \<open>INT_MAX\<close> bound the values an \<open>int\<close>
  can hold. Signed arithmetic that leaves this range is undefined in C, so a statement
  about \<open>int\<close> arithmetic speaks for the source only where its operands and results
  stay within the range; the theorems below say so where it matters.
\<close>

type_synonym byte = "8 word"
type_synonym ulong = "32 word"

definition INT_MAX :: int where
  "INT_MAX = 2147483647"

definition INT_MIN :: int where
  "INT_MIN = - 2147483648"

text \<open>
  An array read \<open>a[i]\<close>. Reading outside the array is undefined behaviour in C; the
  model makes it the value \<open>None\<close>, which every caller propagates.
\<close>

definition rd :: "'a list \<Rightarrow> int \<Rightarrow> 'a option" where
  "rd a i = (if 0 \<le> i \<and> nat i < length a then Some (a ! nat i) else None)"

text \<open>A read \<open>t[i][j]\<close> of a two-dimensional table.\<close>

definition rd2 :: "'a list list \<Rightarrow> int \<Rightarrow> int \<Rightarrow> 'a option" where
  "rd2 t i j = (case rd t i of None \<Rightarrow> None | Some r \<Rightarrow> rd r j)"

text \<open>
  An aggregate initialiser with fewer elements than the array: C fills the rest with
  zeros.
\<close>

definition zeroFill :: "nat \<Rightarrow> 'a::zero list \<Rightarrow> 'a list" where
  "zeroFill n xs = xs @ replicate (n - length xs) 0"

section \<open>Pins, notes and the song catalog\<close>

definition BUZZER_PIN :: int where
  "BUZZER_PIN = 2"

definition LED_PINS :: "int list" where
  "LED_PINS = [4, 5, 6, 7, 8]"

abbreviation (input) NOTE_C4 :: int where "NOTE_C4 \<equiv> 262"
abbreviation (input) NOTE_D4 :: int where "NOTE_D4 \<equiv> 294"
abbreviation (input) NOTE_E4 :: int where "NOTE_E4 \<equiv> 330"
abbreviation (input) NOTE_F4 :: int where "NOTE_F4 \<equiv> 349"
abbreviation (input) NOTE_G4 :: int where "NOTE_G4 \<equiv> 392"
abbreviation (input) NOTE_A4 :: int where "NOTE_A4 \<equiv> 440"
abbreviation (input) NOTE_B4 :: int where "NOTE_B4 \<equiv> 494"
abbreviation (input) NOTE_C5 :: int where "NOTE_C5 \<equiv> 523"
abbreviation (input) NOTE_D5 :: int where "NOTE_D5 \<equiv> 587"
abbreviation (input) NOTE_E5 :: int where "NOTE_E5 \<equiv> 659"
abbreviation (input) NOTE_F5 :: int where "NOTE_F5 \<equiv> 698"
abbreviation (input) NOTE_G5 :: int where "NOTE_G5 \<equiv> 784"
abbreviation (input) NOTE_A5 :: int where "NOTE_A5 \<equiv> 880"
abbreviation (input) NOTE_REST :: int where "NOTE_REST \<equiv> 0"

definition SONG_COUNT :: byte where
  "SONG_COUNT = 3"

definition MAX_NOTES :: int where
  "MAX_NOTES = 65"

definition MAX_LINES :: byte where
  "MAX_LINES = 30"

text \<open>
  The global tables of the sketch, gathered in one record so that the functions below
  can be stated for any catalog contents: \<open>melodyLen[songIdx]\<close> of the source is
  \<open>rd (melodyLen cat) songIdx\<close> here. The three lyric strings are the flash strings
  \<open>lyrics1\<close>, \<open>lyrics2\<close>, \<open>lyrics3\<close>, held without their terminating NUL.
\<close>

record catalog =
  melodyLen :: "byte list"
  tempoBPM :: "int list"
  melodyNotes :: "int list list"
  durationUnits :: "byte list list"
  ledIndex :: "byte list list"
  lyrics1 :: string
  lyrics2 :: string
  lyrics3 :: string
  lineNoteCounts :: "byte list list"

text \<open>The catalog compiled into the sketch.\<close>

definition melodyLen_data :: "byte list" where
  "melodyLen_data = [65, 42, 48]"

definition tempoBPM_data :: "int list" where
  "tempoBPM_data = [45, 96, 66]"

definition melodyNotes_data :: "int list list" where
  "melodyNotes_data =
    [
     zeroFill (nat MAX_NOTES)
       [
         NOTE_B4, NOTE_B4, NOTE_B4, NOTE_A4, NOTE_G4, NOTE_G4, NOTE_A4, NOTE_B4,
         NOTE_B4, NOTE_B4, NOTE_B4, NOTE_A4, NOTE_G4, NOTE_G4, NOTE_A4, NOTE_B4,
         NOTE_A4, NOTE_G4, NOTE_B4, NOTE_B4, NOTE_B4, NOTE_A4, NOTE_G4, NOTE_G4,
         NOTE_A4, NOTE_B4, NOTE_D5, NOTE_D4, NOTE_D4, NOTE_D4, NOTE_E4, NOTE_B4,
         NOTE_B4, NOTE_A4, NOTE_G4, NOTE_A4, NOTE_B4, NOTE_G4, NOTE_D5, NOTE_B4,
         NOTE_A4, NOTE_G4, NOTE_A4, NOTE_G4, NOTE_G4, NOTE_A4, NOTE_B4, NOTE_D5,
         NOTE_E5, NOTE_D5, NOTE_D5, NOTE_D5, NOTE_E5, NOTE_B4, NOTE_B4, NOTE_A4,
         NOTE_G4, NOTE_G4, NOTE_G4, NOTE_A4, NOTE_B4, NOTE_A4, NOTE_G4, NOTE_G4
       ],
     zeroFill (nat MAX_NOTES)
       [
         NOTE_C4, NOTE_C4, NOTE_G4, NOTE_G4, NOTE_A4, NOTE_A4, NOTE_G4, NOTE_F4,
         NOTE_F4, NOTE_E4, NOTE_E4, NOTE_D4, NOTE_D4, NOTE_C4, NOTE_G4, NOTE_G4,
         NOTE_F4, NOTE_F4, NOTE_E4, NOTE_E4, NOTE_D4, NOTE_G4, NOTE_G4, NOTE_F4,
         NOTE_F4, NOTE_E4, NOTE_E4, NOTE_D4, NOTE_C4, NOTE_C4, NOTE_G4, NOTE_G4,
         NOTE_A4, NOTE_A4, NOTE_G4, NOTE_F4, NOTE_F4, NOTE_E4, NOTE_E4, NOTE_D4,
         NOTE_D4, NOTE_C4, NOTE_REST, NOTE_REST, NOTE_REST, NOTE_REST, NOTE_REST, NOTE_REST,
         NOTE_REST, NOTE_REST, NOTE_REST, NOTE_REST, NOTE_REST, NOTE_REST, NOTE_REST, NOTE_REST,
         NOTE_REST, NOTE_REST, NOTE_REST, NOTE_REST, NOTE_REST, NOTE_REST, NOTE_REST, NOTE_REST,
         NOTE_REST
       ],
     zeroFill (nat MAX_NOTES)
       [
         NOTE_G4, NOTE_C5, NOTE_C5, NOTE_C5, NOTE_D5, NOTE_E5, NOTE_E5, NOTE_E5,
         NOTE_D5, NOTE_C5, NOTE_D5, NOTE_E5, NOTE_C5, NOTE_E5, NOTE_E5, NOTE_F5,
         NOTE_G5, NOTE_G5, NOTE_F5, NOTE_E5, NOTE_F5, NOTE_G5, NOTE_E5, NOTE_C5,
         NOTE_C5, NOTE_D5, NOTE_E5, NOTE_E5, NOTE_D5, NOTE_C5, NOTE_D5, NOTE_E5,
         NOTE_C5, NOTE_G4, NOTE_G4, NOTE_C5, NOTE_C5, NOTE_C5, NOTE_D5, NOTE_E5,
         NOTE_E5, NOTE_E5, NOTE_D5, NOTE_C5, NOTE_D5, NOTE_E5, NOTE_C5, NOTE_REST,
         NOTE_REST, NOTE_REST, NOTE_REST, NOTE_REST, NOTE_REST, NOTE_REST, NOTE_REST, NOTE_REST,
         NOTE_REST, NOTE_REST, NOTE_REST, NOTE_REST, NOTE_REST, NOTE_REST, NOTE_REST, NOTE_REST
       ]
    ]"

definition durationUnits_data :: "byte list list" where
  "durationUnits_data =
    [
     zeroFill (nat MAX_NOTES)
       [
         1, 1, 1, 2, 1, 1, 1, 2, 1, 1, 1, 2, 1, 1, 1, 1,
         1, 2, 1, 1, 1, 2, 1, 1, 1, 1, 2, 1, 1, 1, 1, 1,
         2, 1, 1, 1, 1, 2, 1, 1, 2, 1, 1, 2, 1, 1, 2, 1,
         1, 2, 1, 1, 1, 2, 1, 1, 1, 2, 1, 1, 2, 1, 1, 4
       ],
     zeroFill (nat MAX_NOTES)
       [
         2, 2, 2, 2, 2, 2, 4, 2, 2, 2, 2, 2, 2, 4, 2, 2,
         2, 2, 2, 2, 4, 2, 2, 2, 2, 2, 2, 4, 2, 2, 2, 2,
         2, 2, 4, 2, 2, 2, 2, 2, 2, 4, 1, 1, 1, 1, 1, 1,
         1, 1, 1, 1, 1, 1, 1, 1, 1, 1, 1, 1, 1, 1, 1, 1,
         1
       ],
     zeroFill (nat MAX_NOTES)
       [
         1, 1, 1, 1, 1, 1, 2, 1, 1, 1, 1, 1, 2, 1, 1, 1,
         2, 1, 1, 1, 1, 1, 2, 1, 1, 1, 2, 1, 1, 1, 1, 1,
         2, 1, 1, 1, 1, 1, 1, 1, 2, 1, 1, 1, 1, 1, 4, 1,
         1, 1, 1, 1, 1, 1, 1, 1, 1, 1, 1, 1, 1, 1, 1, 1
       ]
    ]"

definition ledIndex_data :: "byte list list" where
  "ledIndex_data =
    [
     zeroFill (nat MAX_NOTES)
       [
         2, 2, 2, 1, 0, 0, 1, 2, 2, 2, 2, 1, 0, 0, 1, 2,
         1, 0, 2, 2, 2, 1, 0, 0, 1, 2, 3, 3, 3, 3, 4, 2,
         2, 1, 0, 1, 2, 0, 3, 2, 1, 0, 1, 0, 0, 1, 2, 3,
         4, 3, 3, 3, 4, 2, 2, 1, 0, 0, 0, 1, 2, 1, 0, 0
       ],
     zeroFill (nat MAX_NOTES)
       [
         0, 0, 1, 1, 2, 2, 1, 3, 3, 4, 4, 0, 0, 0, 1, 1,
         3, 3, 4, 4, 0, 1, 1, 3, 3, 4, 4, 0, 0, 0, 1, 1,
         2, 2, 1, 3, 3, 4, 4, 0, 0, 0, 0, 0, 0, 0, 0, 0,
         0, 0, 0, 0, 0, 0, 0, 0, 0, 0, 0, 0, 0, 0, 0, 0,
         0
       ],
     zeroFill (nat MAX_NOTES)
       [
         0, 0, 0, 0, 1, 2, 2, 2, 1, 0, 1, 2, 0, 2, 2, 3,
         4, 4, 3, 2, 3, 4, 2, 0, 0, 1, 2, 2, 1, 0, 1, 2,
         0, 4, 4, 0, 0, 0, 1, 2, 2, 2, 1, 0, 1, 2, 0, 0,
         0, 0, 0, 0, 0, 0, 0, 0, 0, 0, 0, 0, 0, 0, 0, 0
       ]
    ]"

definition lineNoteCounts_data :: "byte list list" where
  "lineNoteCounts_data =
    [
     zeroFill (unat MAX_LINES)
       [
         4, 4, 4, 6, 4, 5, 6, 5, 3, 3, 3, 3, 4, 4, 3, 4,
         0
       ],
     zeroFill (unat MAX_LINES)
       [
         2, 2, 2, 1, 2, 2, 3, 2, 2, 2, 2, 2, 2, 2, 2, 2,
         2, 2, 1, 2, 2, 3, 0
       ],
     zeroFill (unat MAX_LINES)
       [
         5, 2, 3, 3, 3, 2, 2, 2, 3, 2, 2, 3, 4, 4, 3, 4,
         0
       ]
    ]"

definition lyrics1_data :: string where
  "lyrics1_data =
     ''Almost heaven,\<newline>West Virginia,\<newline>Blue Ridge Mtns,\<newline>Shenandoah Rvr\<newline>Life's old there,\<newline>older than trees,\<newline>'' @
     ''Younger than mtn\<newline>growin like brz\<newline>Country roads,\<newline>take me home,\<newline>To the place\<newline>I belong,\<newline>'' @
     ''West Virginia,\<newline>mountain mama,\<newline>Take me home,\<newline>country roads.''"

definition lyrics2_data :: string where
  "lyrics2_data =
     ''Baa baa\<newline>black sheep\<newline>have you\<newline>any wool?\<newline>Yes sir\<newline>yes sir\<newline>three bags full\<newline>'' @
     ''One for the\<newline>master\<newline>And one for\<newline>the dame\<newline>And one for\<newline>the little boy\<newline>who lives down\<newline>the lane\<newline>'' @
     ''Baa baa\<newline>black sheep\<newline>have you\<newline>any wool?\<newline>Yes sir\<newline>yes sir\<newline>three bags full''"

definition lyrics3_data :: string where
  "lyrics3_data =
     ''The itsy bitsy\<newline>spider\<newline>climbed up the\<newline>water spout\<newline>Down came the\<newline>rain and\<newline>washed the\<newline>spider out\<newline>'' @
     ''Out came the\<newline>sun and\<newline>dried up all\<newline>the rain\<newline>And the itsy\<newline>bitsy spider\<newline>climbed up the\<newline>spout again''"

definition karaoke :: catalog where
  "karaoke =
     \<lparr> melodyLen = melodyLen_data,
       tempoBPM = tempoBPM_data,
       melodyNotes = melodyNotes_data,
       durationUnits = durationUnits_data,
       ledIndex = ledIndex_data,
       lyrics1 = lyrics1_data,
       lyrics2 = lyrics2_data,
       lyrics3 = lyrics3_data,
       lineNoteCounts = lineNoteCounts_data \<rparr>"

section \<open>Tempo clock\<close>

text \<open>
  \<^verbatim>\<open>return (unsigned long)(60000UL / (unsigned long)bpm) / 2UL;\<close>
  The division by a zero divisor is undefined in C and is the value \<open>None\<close> here.
\<close>

definition eighthMs :: "int \<Rightarrow> ulong option" where
  "eighthMs bpm =
     (let d = (word_of_int bpm :: ulong)
      in if d = 0 then None else Some ((60000 div d) div 2))"

section \<open>Lyric indexer\<close>

text \<open>
  The first loop of \<open>getLineInfoFromNotesPlayed\<close>: it walks the row of note counts,
  subtracting each count from \<open>tmp\<close>, and returns the \<open>lineIndex\<close> at which it stops.
\<close>

function findLine :: "byte list \<Rightarrow> int \<Rightarrow> int \<Rightarrow> int option" where
  "findLine row tmp lineIndex =
     (if lineIndex < uint MAX_LINES then
        (case rd row lineIndex of
           None \<Rightarrow> None
         | Some c \<Rightarrow>
             if c = 0 then Some lineIndex
             else if tmp - uint c < 0 then Some lineIndex
             else findLine row (tmp - uint c) (lineIndex + 1))
      else Some lineIndex)"
  by pat_completeness auto
termination
  by (relation "measure (\<lambda>(row, tmp, lineIndex). nat (uint MAX_LINES - lineIndex))") auto

text \<open>The second loop: \<open>startNote\<close> accumulates the counts of the lines before \<open>lineIndex\<close>.\<close>

function sumBefore :: "byte list \<Rightarrow> int \<Rightarrow> int \<Rightarrow> int \<Rightarrow> int option" where
  "sumBefore row lineIndex i startNote =
     (if i < lineIndex then
        (case rd row i of
           None \<Rightarrow> None
         | Some c \<Rightarrow> sumBefore row lineIndex (i + 1) (startNote + uint c))
      else Some startNote)"
  by pat_completeness auto
termination
  by (relation "measure (\<lambda>(row, lineIndex, i, startNote). nat (lineIndex - i))") auto

text \<open>
  The result is the triple of the three reference parameters
  \<open>(outLineIndex, outLineStartNote, outLineNoteCount)\<close>.
\<close>

definition getLineInfoFromNotesPlayed ::
  "catalog \<Rightarrow> byte \<Rightarrow> int \<Rightarrow> int \<Rightarrow> (int \<times> int \<times> int) option" where
  "getLineInfoFromNotesPlayed cat songIdx notesPlayed totalNotes =
     do {
       row \<leftarrow> rd (lineNoteCounts cat) (uint songIdx);
       lineIndex \<leftarrow> findLine row notesPlayed 0;
       startNote \<leftarrow> sumBefore row lineIndex 0 0;
       c \<leftarrow> rd row lineIndex;
       let count = uint c;
       let count =
         (if count = 0
          then (if totalNotes - startNote \<le> 0 then 1 else totalNotes - startNote)
          else count);
       Some (lineIndex, startNote, count)
     }"

text \<open>
  Vocabulary for stating what the indexer computes: the sum of the note counts of the
  lines before index \<open>i\<close>, and the condition under which the walk stops at index \<open>i\<close>
  (the count there is the zero terminator, or subtracting the counts up to and
  including it from \<open>notesPlayed\<close> leaves a negative remainder).
\<close>

definition countsBefore :: "byte list \<Rightarrow> nat \<Rightarrow> int" where
  "countsBefore row i = sum_list (map uint (take i row))"

definition stopsAt :: "byte list \<Rightarrow> int \<Rightarrow> nat \<Rightarrow> bool" where
  "stopsAt row notesPlayed i \<longleftrightarrow>
     row ! i = 0 \<or> notesPlayed - countsBefore row (Suc i) < 0"

definition firstStop :: "byte list \<Rightarrow> int \<Rightarrow> nat \<Rightarrow> bool" where
  "firstStop row notesPlayed i \<longleftrightarrow>
     stopsAt row notesPlayed i \<and> (\<forall>j<i. \<not> stopsAt row notesPlayed j)"

text \<open>A row is terminated when a zero stands among its first \<open>MAX_LINES\<close> entries.\<close>

definition terminated :: "byte list \<Rightarrow> bool" where
  "terminated row \<longleftrightarrow> 0 \<in> set (take (unat MAX_LINES) row)"

section \<open>Line extractor\<close>

abbreviation (input) NUL :: char where "NUL \<equiv> CHR 0x00"
abbreviation (input) CR :: char where "CR \<equiv> CHR 0x0D"
abbreviation (input) LF :: char where "LF \<equiv> CHR 0x0A"

text \<open>\<open>getLyricsPtr\<close>: the flash string of a song, or \<open>NULL\<close> (\<open>None\<close>).\<close>

definition getLyricsPtr :: "catalog \<Rightarrow> byte \<Rightarrow> string option" where
  "getLyricsPtr cat songIdx =
     (if songIdx = 0 then Some (lyrics1 cat)
      else if songIdx = 1 then Some (lyrics2 cat)
      else if songIdx = 2 then Some (lyrics3 cat)
      else None)"

text \<open>
  The buffer \<open>out\<close> is the list of the bytes of the array it points to; its length is
  the capacity of the array. The write \<open>out[pos] = c\<close> outside the array is undefined
  behaviour in C and is the value \<open>None\<close> here, so a run that returns \<open>Some\<close> has made
  every write inside the array.
\<close>

definition poke :: "char list \<Rightarrow> byte \<Rightarrow> char \<Rightarrow> char list option" where
  "poke out pos c = (if unat pos < length out then Some (out[unat pos := c]) else None)"

text \<open>The code after the scanning loop, reached when the flash string has ended.\<close>

definition lastLine :: "byte \<Rightarrow> byte \<Rightarrow> byte \<Rightarrow> char list \<Rightarrow> (bool \<times> char list) option" where
  "lastLine lineIndex curLine pos out =
     (if curLine = lineIndex then map_option (Pair True) (poke out pos NUL)
      else map_option (Pair False) (poke out 0 NUL))"

text \<open>
  The scanning loop \<open>while (true)\<close> over the flash string \<open>p\<close>. The string is given
  without its terminator, so the empty list is the read of the terminating NUL; a NUL
  inside the list ends the string as well. \<open>curLine\<close> and \<open>pos\<close> are bytes and wrap
  around; \<open>(byte)(outSize - 1)\<close> is the byte subtraction.
\<close>

fun scanLyrics ::
  "string \<Rightarrow> byte \<Rightarrow> byte \<Rightarrow> byte \<Rightarrow> byte \<Rightarrow> char list \<Rightarrow> (bool \<times> char list) option" where
  "scanLyrics [] lineIndex outSize curLine pos out = lastLine lineIndex curLine pos out"
| "scanLyrics (c # p) lineIndex outSize curLine pos out =
     (if c = NUL then lastLine lineIndex curLine pos out
      else if c = CR then scanLyrics p lineIndex outSize curLine pos out
      else if c = LF then
        (if curLine = lineIndex then map_option (Pair True) (poke out pos NUL)
         else scanLyrics p lineIndex outSize (curLine + 1) 0 out)
      else if curLine = lineIndex then
        (if pos < outSize - 1 then
           (case poke out pos c of
              None \<Rightarrow> None
            | Some out' \<Rightarrow> scanLyrics p lineIndex outSize curLine (pos + 1) out')
         else scanLyrics p lineIndex outSize curLine pos out)
      else scanLyrics p lineIndex outSize curLine pos out)"

text \<open>
  \<open>getLyricLine\<close> returns the boolean result together with the buffer as it leaves it.
\<close>

definition getLyricLine ::
  "catalog \<Rightarrow> byte \<Rightarrow> byte \<Rightarrow> char list \<Rightarrow> byte \<Rightarrow> (bool \<times> char list) option" where
  "getLyricLine cat songIdx lineIndex out outSize =
     (if outSize = 0 then Some (False, out)
      else
        (case poke out 0 NUL of
           None \<Rightarrow> None
         | Some out0 \<Rightarrow>
             (case getLyricsPtr cat songIdx of
                None \<Rightarrow> Some (False, out0)
              | Some p \<Rightarrow> scanLyrics p lineIndex outSize 0 0 out0)))"

text \<open>
  Vocabulary for the extractor's contract. The string a buffer holds is the bytes
  before its first NUL, and a buffer is terminated when it holds a NUL. The lines of a
  lyric text are the pieces between its newlines, carriage returns ignored: the text
  up to its terminator is cut at every newline, so the piece after the last newline is
  a line too (the final, unterminated one).
\<close>

definition cstring :: "char list \<Rightarrow> string" where
  "cstring buf = takeWhile (\<lambda>c. c \<noteq> NUL) buf"

definition nulTerminated :: "char list \<Rightarrow> bool" where
  "nulTerminated buf \<longleftrightarrow> NUL \<in> set buf"

fun splitLines :: "string \<Rightarrow> string list" where
  "splitLines [] = [[]]"
| "splitLines (c # cs) =
     (if c = LF then [] # splitLines cs
      else (c # hd (splitLines cs)) # tl (splitLines cs))"

definition lyricLines :: "string \<Rightarrow> string list" where
  "lyricLines text = splitLines (filter (\<lambda>c. c \<noteq> CR) (cstring text))"

text \<open>A line exists in a song when the song has a lyric text with more lines than the index.\<close>

definition lineExists :: "catalog \<Rightarrow> byte \<Rightarrow> byte \<Rightarrow> bool" where
  "lineExists cat songIdx lineIndex \<longleftrightarrow>
     (case getLyricsPtr cat songIdx of
        None \<Rightarrow> False
      | Some text \<Rightarrow> unat lineIndex < length (lyricLines text))"

text \<open>A catalog whose first lyric text is the three lines \<open>A\<close>, \<open>BB\<close>, \<open>CCC\<close>.\<close>

definition abcCatalog :: catalog where
  "abcCatalog = karaoke \<lparr> lyrics1 := ''A\<newline>BB\<newline>CCC'' \<rparr>"

text \<open>
  The buffer after the string \<open>s\<close> and its terminator have been stored from index
  \<open>pos\<close> on; the bytes before and after are those of \<open>out\<close>.
\<close>

definition fill :: "char list \<Rightarrow> nat \<Rightarrow> string \<Rightarrow> char list" where
  "fill out pos s = take pos out @ s @ NUL # drop (Suc (pos + length s)) out"

text \<open>What the scanning loop computes, for a scan that has not passed the requested line.\<close>

definition scanResult :: "string \<Rightarrow> nat \<Rightarrow> nat \<Rightarrow> nat \<Rightarrow> char list \<Rightarrow> (bool \<times> char list) option" where
  "scanResult text cap d q out =
     (if d < length (lyricLines text)
      then Some (True, fill out q (take (cap - q) (lyricLines text ! d)))
      else Some (False, out[0 := NUL]))"

section \<open>Output sinks\<close>

text \<open>
  The display, the lights and the buzzer are driven through library calls. The model
  records every call, in order, in a trace; a function with an effect takes the trace
  so far and returns it extended. The busy-wait \<open>while (millis() - start < n) {}\<close> is
  the event \<open>Wait n\<close>.
\<close>

datatype event =
    LcdClear
  | LcdSetCursor byte byte
  | LcdPrint char
  | DigitalWrite int bool
  | Tone int int
  | NoTone int
  | Wait ulong
  | SerialPrintln string

type_synonym trace = "event list"

definition lcdClear :: "trace \<Rightarrow> trace" where
  "lcdClear tr = tr @ [LcdClear]"

definition digitalWrite :: "int \<Rightarrow> bool \<Rightarrow> trace \<Rightarrow> trace" where
  "digitalWrite pin level tr = tr @ [DigitalWrite pin level]"

definition tone :: "int \<Rightarrow> int \<Rightarrow> trace \<Rightarrow> trace" where
  "tone pin hz tr = tr @ [Tone pin hz]"

definition noTone :: "int \<Rightarrow> trace \<Rightarrow> trace" where
  "noTone pin tr = tr @ [NoTone pin]"

definition busyWait :: "ulong \<Rightarrow> trace \<Rightarrow> trace" where
  "busyWait ms tr = tr @ [Wait ms]"

definition serialPrintln :: "string \<Rightarrow> trace \<Rightarrow> trace" where
  "serialPrintln s tr = tr @ [SerialPrintln s]"

text \<open>
  \<open>lcdPrintFixed\<close>: the first loop prints the characters of \<open>text\<close> up to 16 or up to
  its terminator, the second pads the row with spaces. The counter \<open>i\<close> never exceeds 16.
\<close>

fun printChars :: "nat \<Rightarrow> string \<Rightarrow> trace \<Rightarrow> nat \<times> trace" where
  "printChars i [] tr = (i, tr)"
| "printChars i (c # cs) tr =
     (if i < 16 \<and> c \<noteq> NUL then printChars (Suc i) cs (tr @ [LcdPrint c]) else (i, tr))"

function padSpaces :: "nat \<Rightarrow> trace \<Rightarrow> trace" where
  "padSpaces i tr = (if i < 16 then padSpaces (Suc i) (tr @ [LcdPrint (CHR '' '')]) else tr)"
  by pat_completeness auto
termination
  by (relation "measure (\<lambda>(i, tr). 16 - i)") auto

definition lcdPrintFixed :: "byte \<Rightarrow> byte \<Rightarrow> string \<Rightarrow> trace \<Rightarrow> trace" where
  "lcdPrintFixed col row text tr =
     (case printChars 0 text (tr @ [LcdSetCursor col row]) of
        (i, tr') \<Rightarrow> padSpaces i tr')"

definition showTwoLines :: "string \<Rightarrow> string \<Rightarrow> trace \<Rightarrow> trace" where
  "showTwoLines l1 l2 tr = lcdPrintFixed 0 1 l2 (lcdPrintFixed 0 0 l1 tr)"

text \<open>\<open>allLEDsOff\<close>: \<open>digitalWrite(LED_PINS[i], LOW)\<close> for \<open>i\<close> from 0 to 4.\<close>

definition allLEDsOff :: "trace \<Rightarrow> trace" where
  "allLEDsOff tr = foldl (\<lambda>t pin. digitalWrite pin False t) tr LED_PINS"

text \<open>
  Reading a trace: the level last written to a pin, the frequency the buzzer is
  sounding after the last \<open>tone\<close> or \<open>noTone\<close> call, and the numbers of calls that
  switch a pin on and of busy-waits.
\<close>

definition pinLevel :: "trace \<Rightarrow> int \<Rightarrow> bool option" where
  "pinLevel tr pin =
     foldl (\<lambda>lv e. case e of DigitalWrite p v \<Rightarrow> (if p = pin then Some v else lv) | _ \<Rightarrow> lv)
       None tr"

definition sounding :: "trace \<Rightarrow> int option" where
  "sounding tr =
     foldl (\<lambda>hz e. case e of Tone p f \<Rightarrow> Some f | NoTone p \<Rightarrow> None | _ \<Rightarrow> hz) None tr"

fun isSwitchOn :: "event \<Rightarrow> bool" where
  "isSwitchOn (DigitalWrite pin level) = level"
| "isSwitchOn _ = False"

fun isWait :: "event \<Rightarrow> bool" where
  "isWait (Wait ms) = True"
| "isWait _ = False"

section \<open>Articulation: the gate split of a note\<close>

text \<open>
  \<open>const float GATE = 0.93\<close> and \<open>(unsigned long)((float)noteTotal * GATE)\<close> are
  computed in IEEE 754 single precision: 24 significant bits, round to nearest, ties to
  even. Every value here is non-negative and between 1 and \<open>2^32\<close>, far from the
  subnormal and overflow ranges, so the rounding of a value \<open>m / 2^k\<close> is the rounding
  of the natural number \<open>m\<close> to 24 significant bits, divided by \<open>2^k\<close>.
  \<open>round24 m\<close> is that rounding; \<open>GATE\<close> is \<open>15602811 / 2^24\<close>, the single-precision
  number nearest to 0.93; the conversion to \<open>unsigned long\<close> truncates.
\<close>

fun bitlen :: "nat \<Rightarrow> nat" where
  "bitlen n = (if n = 0 then 0 else Suc (bitlen (n div 2)))"

declare bitlen.simps [simp del]

definition round24 :: "nat \<Rightarrow> nat" where
  "round24 m =
     (let k = bitlen m - 24; q = m div 2 ^ k; r = m mod 2 ^ k
      in if 2 * r > 2 ^ k \<or> (2 * r = 2 ^ k \<and> odd q) then (q + 1) * 2 ^ k else q * 2 ^ k)"

definition GATE_mantissa :: nat where
  "GATE_mantissa = 15602811"

definition gateOn :: "ulong \<Rightarrow> ulong" where
  "gateOn noteTotal =
     word_of_nat (round24 (round24 (unat noteTotal) * GATE_mantissa) div 2 ^ 24)"

text \<open>
  The timing of one note in \<open>playSong\<close>: \<open>(noteTotal, noteOnMs, noteOffMs)\<close> from the
  note's duration units and the length of one unit.
\<close>

definition noteTiming :: "byte \<Rightarrow> ulong \<Rightarrow> ulong \<times> ulong \<times> ulong" where
  "noteTiming durU unitMs =
     (let noteTotal = ucast durU * unitMs;
          noteTotal = (if noteTotal = 0 then 1 else noteTotal);
          noteOnMs = gateOn noteTotal;
          noteOffMs = noteTotal - noteOnMs
      in (noteTotal, noteOnMs, noteOffMs))"

section \<open>Playback engine\<close>

text \<open>
  The lyric state of the loop in \<open>playSong\<close>: the line last shown and the two display
  buffers \<open>top\<close> and \<open>bot\<close> of 17 bytes each.
\<close>

record lyricDisplay =
  lastLineDisplayed :: int
  top_buf :: "char list"
  bot_buf :: "char list"

text \<open>The display refresh at the head of the loop body, done when the line changes.\<close>

definition refreshLyrics ::
  "catalog \<Rightarrow> byte \<Rightarrow> int \<Rightarrow> lyricDisplay \<Rightarrow> trace \<Rightarrow> (lyricDisplay \<times> trace) option" where
  "refreshLyrics cat songIdx lineIndex0 disp tr =
     (if lineIndex0 \<noteq> lastLineDisplayed disp then
        do {
          (ok1, top1) \<leftarrow> getLyricLine cat songIdx (word_of_int lineIndex0) (top_buf disp) 17;
          (ok2, bot1) \<leftarrow> getLyricLine cat songIdx (word_of_int (lineIndex0 + 1)) (bot_buf disp) 17;
          top2 \<leftarrow> (if \<not> ok1 then poke top1 0 NUL else Some top1);
          bot2 \<leftarrow> (if \<not> ok2 then poke bot1 0 NUL else Some bot1);
          Some (\<lparr> lastLineDisplayed = lineIndex0, top_buf = top2, bot_buf = bot2 \<rparr>,
                showTwoLines top2 bot2 tr)
        }
      else Some (disp, tr))"

text \<open>\<open>if (li > 4) li = 4;\<close>\<close>

definition clampLed :: "byte \<Rightarrow> byte" where
  "clampLed li = (if li > 4 then 4 else li)"

text \<open>The light and the tone of a note: switched on for a pitch, the tone stopped for a rest.\<close>

definition startNote :: "int \<Rightarrow> byte \<Rightarrow> trace \<Rightarrow> trace option" where
  "startNote noteHz li tr =
     (if noteHz \<noteq> NOTE_REST then
        do {
          pin \<leftarrow> rd LED_PINS (uint li);
          Some (tone BUZZER_PIN noteHz (digitalWrite pin True tr))
        }
      else Some (noTone BUZZER_PIN tr))"

text \<open>One pass through the body of the loop \<open>while (notesPlayed < totalNotes)\<close>.\<close>

definition playNote ::
  "catalog \<Rightarrow> byte \<Rightarrow> int \<Rightarrow> ulong \<Rightarrow> int \<Rightarrow> lyricDisplay \<Rightarrow> trace
     \<Rightarrow> (lyricDisplay \<times> trace) option" where
  "playNote cat songIdx totalNotes unitMs notesPlayed disp tr =
     do {
       (lineIndex0, lineStartNote, lineNoteCount) \<leftarrow>
         getLineInfoFromNotesPlayed cat songIdx notesPlayed totalNotes;
       (disp1, tr1) \<leftarrow> refreshLyrics cat songIdx lineIndex0 disp tr;
       noteHz \<leftarrow> rd2 (melodyNotes cat) (uint songIdx) notesPlayed;
       durU \<leftarrow> rd2 (durationUnits cat) (uint songIdx) notesPlayed;
       (noteTotal, noteOnMs, noteOffMs) \<leftarrow> Some (noteTiming durU unitMs);
       li \<leftarrow> rd2 (ledIndex cat) (uint songIdx) notesPlayed;
       tr2 \<leftarrow> startNote noteHz (clampLed li) (allLEDsOff tr1);
       Some (disp1,
             busyWait noteOffMs (allLEDsOff (noTone BUZZER_PIN (busyWait noteOnMs tr2))))
     }"

function playLoop ::
  "catalog \<Rightarrow> byte \<Rightarrow> int \<Rightarrow> ulong \<Rightarrow> int \<Rightarrow> lyricDisplay \<Rightarrow> trace \<Rightarrow> trace option" where
  "playLoop cat songIdx totalNotes unitMs notesPlayed disp tr =
     (if notesPlayed < totalNotes then
        (case playNote cat songIdx totalNotes unitMs notesPlayed disp tr of
           None \<Rightarrow> None
         | Some (disp', tr') \<Rightarrow>
             playLoop cat songIdx totalNotes unitMs (notesPlayed + 1) disp' tr')
      else Some tr)"
  by pat_completeness auto
termination
  by (relation "measure (\<lambda>(cat, songIdx, totalNotes, unitMs, notesPlayed, disp, tr).
                  nat (totalNotes - notesPlayed))") auto

text \<open>
  The banner shown before the song. The second row depends on the song index.
\<close>

definition announce :: "byte \<Rightarrow> trace \<Rightarrow> trace" where
  "announce songIdx tr =
     (let tr = lcdPrintFixed 0 0 ''Now Playing:'' (lcdClear tr);
          tr = (if songIdx = 0 then lcdPrintFixed 0 1 ''Country Roads'' tr else tr);
          tr = (if songIdx = 1 then lcdPrintFixed 0 1 ''Baa Baa Sheep'' tr else tr);
          tr = (if songIdx = 2 then lcdPrintFixed 0 1 ''Itsy Spider'' tr else tr)
      in busyWait 900 tr)"

text \<open>The end of \<open>playSong\<close>, after the loop.\<close>

definition finish :: "trace \<Rightarrow> trace" where
  "finish tr =
     (let tr = allLEDsOff (noTone BUZZER_PIN tr);
          tr = lcdPrintFixed 0 0 ''Song Complete!'' (lcdClear tr);
          tr = lcdPrintFixed 0 1 ''Choose another!'' tr;
          tr = serialPrintln ''Song Complete!'' tr
      in busyWait 1200 tr)"

text \<open>
  \<open>playSong\<close>. The buffers \<open>top\<close> and \<open>bot\<close> are local arrays whose first byte is set to
  NUL; their other bytes, indeterminate in C, are NUL here (each is written by
  \<open>getLyricLine\<close> before \<open>lcdPrintFixed\<close> can read it).
\<close>

definition playSong :: "catalog \<Rightarrow> byte \<Rightarrow> trace \<Rightarrow> trace option" where
  "playSong cat songIdx tr =
     do {
       len \<leftarrow> rd (melodyLen cat) (uint songIdx);
       bpm \<leftarrow> rd (tempoBPM cat) (uint songIdx);
       let totalNotes = uint len;
       if totalNotes \<le> 0 \<or> bpm \<le> 0 then Some tr
       else do {
         unitMs \<leftarrow> eighthMs bpm;
         let tr1 = noTone BUZZER_PIN (allLEDsOff (lcdClear (announce songIdx tr)));
         let disp = \<lparr> lastLineDisplayed = - 999,
                      top_buf = replicate 17 NUL, bot_buf = replicate 17 NUL \<rparr>;
         tr2 \<leftarrow> playLoop cat songIdx totalNotes unitMs 0 disp tr1;
         Some (finish tr2)
       }
     }"

text \<open>
  Vocabulary for the playback claims. \<open>playNotes\<close> applies the loop body once for each
  note index of a list, in order. \<open>isLcd\<close> recognises the display calls.
  \<open>noteEvents\<close> is the sequence of light, tone and wait calls of one note after the
  display refresh.
\<close>

fun playNotes ::
  "catalog \<Rightarrow> byte \<Rightarrow> int \<Rightarrow> ulong \<Rightarrow> int list \<Rightarrow> lyricDisplay \<Rightarrow> trace
     \<Rightarrow> (lyricDisplay \<times> trace) option" where
  "playNotes cat songIdx totalNotes unitMs [] disp tr = Some (disp, tr)"
| "playNotes cat songIdx totalNotes unitMs (n # ns) disp tr =
     (case playNote cat songIdx totalNotes unitMs n disp tr of
        None \<Rightarrow> None
      | Some (disp', tr') \<Rightarrow> playNotes cat songIdx totalNotes unitMs ns disp' tr')"

fun isLcd :: "event \<Rightarrow> bool" where
  "isLcd LcdClear = True"
| "isLcd (LcdSetCursor col row) = True"
| "isLcd (LcdPrint c) = True"
| "isLcd _ = False"

definition ledsOff :: trace where
  "ledsOff = map (\<lambda>pin. DigitalWrite pin False) LED_PINS"

definition noteEvents :: "int \<Rightarrow> byte \<Rightarrow> ulong \<Rightarrow> byte \<Rightarrow> trace" where
  "noteEvents noteHz durU unitMs li =
     (case noteTiming durU unitMs of
        (noteTotal, noteOnMs, noteOffMs) \<Rightarrow>
          ledsOff
          @ (if noteHz \<noteq> NOTE_REST
             then [DigitalWrite (LED_PINS ! unat (clampLed li)) True, Tone BUZZER_PIN noteHz]
             else [NoTone BUZZER_PIN])
          @ [Wait noteOnMs, NoTone BUZZER_PIN] @ ledsOff @ [Wait noteOffMs])"

text \<open>
  Two catalogs for concrete instances: the compiled-in one with the tempo of its second
  song set to zero, and one whose first song has three notes, all with a pitch, the
  second of them with the light index 7.
\<close>

definition zeroTempoCatalog :: catalog where
  "zeroTempoCatalog = karaoke \<lparr> tempoBPM := [45, 0, 66] \<rparr>"

definition threeNoteCatalog :: catalog where
  "threeNoteCatalog =
     karaoke
       \<lparr> melodyLen := [3, 42, 48],
         tempoBPM := [96, 96, 66],
         melodyNotes := (melodyNotes karaoke)[0 := zeroFill (nat MAX_NOTES) [NOTE_C4, NOTE_E4, NOTE_G4]],
         durationUnits := (durationUnits karaoke)[0 := zeroFill (nat MAX_NOTES) [2, 2, 4]],
         ledIndex := (ledIndex karaoke)[0 := zeroFill (nat MAX_NOTES) [0, 7, 2]],
         lyrics1 := ''A\<newline>BB\<newline>CCC'',
         lineNoteCounts := (lineNoteCounts karaoke)[0 := zeroFill (unat MAX_LINES) [1, 1, 1, 0]] \<rparr>"

text \<open>
  The three-note song slowed to 11 beats per minute, its first note 109 units long.
\<close>

definition slowNoteCatalog :: catalog where
  "slowNoteCatalog =
     threeNoteCatalog
       \<lparr> tempoBPM := [11, 96, 66],
         durationUnits := (durationUnits karaoke)[0 := zeroFill (nat MAX_NOTES) [109, 2, 4]] \<rparr>"

text \<open>
  Vocabulary for what the display shows. \<open>shownRow row s\<close> is the sequence of display
  calls that puts the string \<open>s\<close>, cut or padded with spaces to 16 characters, on a row:
  the cursor set to its first column, then 16 characters printed. \<open>lineText\<close> is the
  text of a lyric line of a song, empty when the song has no such line. \<open>shownLines\<close>
  puts a line on the first row and the line after it on the second. A trace
  \<open>displays\<close> line \<open>l\<close> when the last display calls in it are \<open>shownLines\<close> of \<open>l\<close>.
\<close>

definition shownRow :: "byte \<Rightarrow> string \<Rightarrow> trace" where
  "shownRow row s =
     LcdSetCursor 0 row # map LcdPrint (take 16 s)
       @ replicate (16 - length (take 16 s)) (LcdPrint (CHR '' ''))"

definition lineText :: "catalog \<Rightarrow> byte \<Rightarrow> nat \<Rightarrow> string" where
  "lineText cat songIdx l =
     (case getLyricsPtr cat songIdx of
        None \<Rightarrow> []
      | Some lyr \<Rightarrow> if l < length (lyricLines lyr) then lyricLines lyr ! l else [])"

definition shownLines :: "catalog \<Rightarrow> byte \<Rightarrow> nat \<Rightarrow> trace" where
  "shownLines cat songIdx l =
     shownRow 0 (lineText cat songIdx l) @ shownRow 1 (lineText cat songIdx (Suc l))"

definition displays :: "catalog \<Rightarrow> byte \<Rightarrow> trace \<Rightarrow> nat \<Rightarrow> bool" where
  "displays cat songIdx tr l \<longleftrightarrow>
     drop (length (filter isLcd tr) - 34) (filter isLcd tr) = shownLines cat songIdx l"

section \<open>Properties of the lyric indexer\<close>

lemma rd_Some: "i < length a \<Longrightarrow> rd a (int i) = Some (a ! i)"
  by (simp add: rd_def)

lemma countsBefore_0: "countsBefore row 0 = 0"
  by (simp add: countsBefore_def)

lemma countsBefore_Suc:
  "i < length row \<Longrightarrow> countsBefore row (Suc i) = countsBefore row i + uint (row ! i)"
  by (simp add: countsBefore_def take_Suc_conv_app_nth)

lemma countsBefore_mono: "i \<le> j \<Longrightarrow> countsBefore row i \<le> countsBefore row j"
proof (induction j)
  case 0
  then show ?case by simp
next
  case (Suc j)
  show ?case
  proof (cases "i = Suc j")
    case True
    then show ?thesis by simp
  next
    case False
    with Suc have le: "countsBefore row i \<le> countsBefore row j" by simp
    show ?thesis
    proof (cases "j < length row")
      case True
      have "countsBefore row (Suc j) = countsBefore row j + uint (row ! j)"
        using True by (rule countsBefore_Suc)
      moreover have "0 \<le> uint (row ! j)" by (rule uint_ge_0)
      ultimately show ?thesis using le by linarith
    next
      case False
      then show ?thesis using le by (simp add: countsBefore_def)
    qed
  qed
qed

lemma terminatedE:
  assumes "terminated row"
  obtains k where "k < unat MAX_LINES" "k < length row" "row ! k = 0"
proof -
  from assms obtain k where "k < length (take (unat MAX_LINES) row)"
      "take (unat MAX_LINES) row ! k = 0"
    unfolding terminated_def by (metis in_set_conv_nth)
  then have "k < unat MAX_LINES" "k < length row" "row ! k = 0" by simp_all
  then show thesis by (rule that)
qed

lemma findLine_walk:
  assumes z: "k < unat MAX_LINES" "k < length row" "row ! k = 0"
  shows "li \<le> k \<Longrightarrow> tmp = n - countsBefore row li \<Longrightarrow>
         (\<forall>j<li. \<not> stopsAt row n j) \<Longrightarrow>
         \<exists>r. findLine row tmp (int li) = Some (int r) \<and> r \<le> k \<and> firstStop row n r"
proof (induction "k - li" arbitrary: li tmp)
  case 0
  then have li: "li = k" by simp
  have "int k < uint MAX_LINES" using z(1) by (simp add: MAX_LINES_def)
  then have "findLine row tmp (int li) = Some (int li)"
    using li z by (simp add: rd_Some)
  moreover have "firstStop row n li"
    using li z "0.prems" by (simp add: firstStop_def stopsAt_def)
  ultimately show ?case using li by blast
next
  case (Suc d)
  then have lt: "li < k" by simp
  then have inr: "li < length row" using z by simp
  have lim: "int li < uint MAX_LINES" using z(1) lt by (simp add: MAX_LINES_def)
  let ?c = "row ! li"
  have rdc: "rd row (int li) = Some ?c" using inr by (rule rd_Some)
  have tmp': "tmp - uint ?c = n - countsBefore row (Suc li)"
    using Suc.prems(2) inr by (simp add: countsBefore_Suc)
  show ?case
  proof (cases "?c = 0 \<or> tmp - uint ?c < 0")
    case True
    then have "findLine row tmp (int li) = Some (int li)"
      using lim rdc by (subst findLine.simps) auto
    moreover have "stopsAt row n li" using True tmp' by (auto simp: stopsAt_def)
    ultimately show ?thesis using lt Suc.prems(3) by (auto simp: firstStop_def)
  next
    case False
    then have step: "findLine row tmp (int li) = findLine row (tmp - uint ?c) (int (Suc li))"
      using lim rdc by (subst findLine.simps) (auto simp: add.commute)
    have ns: "\<not> stopsAt row n li" using False tmp' by (auto simp: stopsAt_def)
    have "\<forall>j<Suc li. \<not> stopsAt row n j"
      using Suc.prems(3) ns by (auto simp: less_Suc_eq)
    moreover have "d = k - Suc li" using Suc.hyps(2) by simp
    moreover have "Suc li \<le> k" using lt by simp
    ultimately show ?thesis using Suc.hyps(1)[of "Suc li" "tmp - uint ?c"] tmp' step
      by auto
  qed
qed

lemma sumBefore_walk:
  "i \<le> r \<Longrightarrow> r \<le> length row \<Longrightarrow>
   sumBefore row (int r) (int i) acc = Some (acc + countsBefore row r - countsBefore row i)"
proof (induction "r - i" arbitrary: i acc)
  case 0
  then show ?case by simp
next
  case (Suc d)
  then have lt: "i < r" by simp
  then have inr: "i < length row" using Suc.prems by simp
  have "sumBefore row (int r) (int i) acc
        = sumBefore row (int r) (int (Suc i)) (acc + uint (row ! i))"
    using lt inr by (subst sumBefore.simps) (simp add: rd_Some add.commute)
  also have "\<dots> = Some (acc + uint (row ! i) + countsBefore row r - countsBefore row (Suc i))"
    using Suc.hyps(1)[of "Suc i"] Suc.hyps(2) Suc.prems lt by simp
  finally show ?case using inr by (simp add: countsBefore_Suc)
qed

lemma firstStop_unique:
  "firstStop row n a \<Longrightarrow> firstStop row n b \<Longrightarrow> a = b"
  unfolding firstStop_def by (meson linorder_neqE_nat)

text \<open>The indexer on a terminated row, in one statement.\<close>

lemma getLineInfo_terminated:
  assumes row: "rd (lineNoteCounts cat) (uint songIdx) = Some row"
    and t: "terminated row"
  shows "\<exists>r. getLineInfoFromNotesPlayed cat songIdx n totalNotes =
            Some (int r, countsBefore row r,
                  if row ! r = 0 then max 1 (totalNotes - countsBefore row r) else uint (row ! r))
          \<and> r < unat MAX_LINES \<and> r < length row \<and> firstStop row n r"
proof -
  from t obtain k where z: "k < unat MAX_LINES" "k < length row" "row ! k = 0"
    by (rule terminatedE)
  obtain r where
    r: "findLine row n 0 = Some (int r)" "r \<le> k" "firstStop row n r"
    using findLine_walk[OF z, of 0 n n] by (auto simp: countsBefore_0)
  have rl: "r < length row" "r < unat MAX_LINES" using r(2) z by simp_all
  have sb: "sumBefore row (int r) 0 0 = Some (countsBefore row r)"
    using sumBefore_walk[of 0 r row 0] rl by (simp add: countsBefore_0)
  have c: "rd row (int r) = Some (row ! r)" using rl by (simp add: rd_Some)
  have "getLineInfoFromNotesPlayed cat songIdx n totalNotes =
        Some (int r, countsBefore row r,
              if row ! r = 0 then max 1 (totalNotes - countsBefore row r) else uint (row ! r))"
    unfolding getLineInfoFromNotesPlayed_def
    using row r(1) sb c by (auto simp: Let_def max_def uint_0_iff)
  then show ?thesis using rl r(3) by blast
qed

text \<open>The row of the third song of the compiled-in catalog, used for concrete instances.\<close>

lemma karaoke_row2:
  "rd (lineNoteCounts karaoke) (uint (2::byte)) = Some (lineNoteCounts_data ! 2)"
  by (simp add: karaoke_def rd_def lineNoteCounts_data_def)

lemma terminated_row2: "terminated (lineNoteCounts_data ! 2)"
  by (simp add: terminated_def lineNoteCounts_data_def zeroFill_def MAX_LINES_def)

lemma uint_pos: "w \<noteq> 0 \<Longrightarrow> 0 < uint w"
proof -
  assume "w \<noteq> 0"
  then have "uint w \<noteq> 0" by (simp add: uint_0_iff)
  moreover have "0 \<le> uint w" by (rule uint_ge_0)
  ultimately show ?thesis by linarith
qed

lemma countsBefore_nonneg: "0 \<le> countsBefore row i"
  using countsBefore_mono [of 0 i row] by (simp add: countsBefore_0)

lemma firstStop_mono:
  assumes a: "firstStop row n a" and b: "firstStop row m b" and nm: "n \<le> m"
  shows "a \<le> b"
proof (rule ccontr)
  assume "\<not> a \<le> b"
  then have "b < a" by simp
  with a have "\<not> stopsAt row n b" by (simp add: firstStop_def)
  moreover from b have "stopsAt row m b" by (simp add: firstStop_def)
  ultimately show False using nm by (auto simp: stopsAt_def)
qed

lemma getLineInfo_firstStop:
  assumes row: "rd (lineNoteCounts cat) (uint songIdx) = Some row"
    and t: "terminated row" and f: "firstStop row n i"
  shows "getLineInfoFromNotesPlayed cat songIdx n totalNotes =
           Some (int i, countsBefore row i,
                 if row ! i = 0 then max 1 (totalNotes - countsBefore row i) else uint (row ! i))"
proof -
  from getLineInfo_terminated [OF row t, of n totalNotes]
  obtain r where r:
    "getLineInfoFromNotesPlayed cat songIdx n totalNotes =
       Some (int r, countsBefore row r,
             if row ! r = 0 then max 1 (totalNotes - countsBefore row r) else uint (row ! r))"
    "firstStop row n r"
    by blast
  from firstStop_unique [OF r(2) f] have "r = i" .
  with r(1) show ?thesis by simp
qed

lemma firstStop_line_start:
  assumes k: "k < length row" "\<forall>j<k. row ! j \<noteq> 0" and i: "i < k"
  shows "firstStop row (countsBefore row i) i"
proof -
  have il: "i < length row" using k(1) i by simp
  have "row ! i \<noteq> 0" using k(2) i by simp
  then have pos: "0 < uint (row ! i)" by (rule uint_pos)
  have "stopsAt row (countsBefore row i) i"
    using pos il by (simp add: stopsAt_def countsBefore_Suc)
  moreover have "\<not> stopsAt row (countsBefore row i) j" if "j < i" for j
  proof -
    have "row ! j \<noteq> 0" using k(2) i that by simp
    moreover have "countsBefore row (Suc j) \<le> countsBefore row i"
      using that by (intro countsBefore_mono) simp
    ultimately show ?thesis by (simp add: stopsAt_def)
  qed
  ultimately show ?thesis by (simp add: firstStop_def)
qed

lemma firstStop_remainder:
  assumes k: "row ! k = 0" "\<forall>j<k. row ! j \<noteq> 0" and n: "countsBefore row k \<le> n"
  shows "firstStop row n k"
proof -
  have "stopsAt row n k" using k(1) by (simp add: stopsAt_def)
  moreover have "\<not> stopsAt row n j" if "j < k" for j
  proof -
    have "row ! j \<noteq> 0" using k(2) that by simp
    moreover have "countsBefore row (Suc j) \<le> countsBefore row k"
      using that by (intro countsBefore_mono) simp
    ultimately show ?thesis using n by (simp add: stopsAt_def)
  qed
  ultimately show ?thesis by (simp add: firstStop_def)
qed

lemma terminatedI:
  "k < unat MAX_LINES \<Longrightarrow> k < length row \<Longrightarrow> row ! k = 0 \<Longrightarrow> terminated row"
  unfolding terminated_def by (metis in_set_conv_nth length_take min_less_iff_conj nth_take)


lemma defined_lines_nonzero:
  assumes "k < length row" and "0 \<notin> set (take k row)"
  shows "\<forall>j<k. row ! j \<noteq> 0"
proof (intro allI impI)
  fix j assume j: "j < k"
  then have "take k row ! j \<in> set (take k row)" using assms(1) by (intro nth_mem) simp
  then have "row ! j \<in> set (take k row)" using j by simp
  with assms(2) show "row ! j \<noteq> 0" by metis
qed

lemma countsBefore_le: "countsBefore row i \<le> 255 * int i"
proof (induction i)
  case 0
  then show ?case by (simp add: countsBefore_0)
next
  case (Suc i)
  show ?case
  proof (cases "i < length row")
    case True
    have "uint (row ! i) < 2 ^ LENGTH(8)" by (rule uint_lt2p)
    then have "uint (row ! i) \<le> 255" by simp
    moreover have "countsBefore row (Suc i) = countsBefore row i + uint (row ! i)"
      using True by (rule countsBefore_Suc)
    ultimately show ?thesis using Suc by simp
  next
    case False
    then have "countsBefore row (Suc i) = countsBefore row i" by (simp add: countsBefore_def)
    then show ?thesis using Suc by simp
  qed
qed

section \<open>The tempo clock\<close>

lemma uint_bpm:
  assumes "0 < bpm" "bpm \<le> INT_MAX"
  shows "uint (word_of_int bpm :: ulong) = bpm"
  using assms by (simp add: INT_MAX_def uint_word_of_int take_bit_eq_mod)

text \<open>
  Claim C2. For every tempo greater than zero (and representable as an \<open>int\<close>),
  \<open>eighthMs\<close> returns a value, and that value is the nested integer division
  \<open>(60000 div tempo) div 2\<close>, which is the floor of half of the real quotient
  \<open>60000 / tempo\<close>. At tempo 96 the result is 312 (shown by the instance below).
\<close>

theorem eighthMs_floor:
  assumes "0 < tempo" and "tempo \<le> INT_MAX"
  shows "\<exists>u. eighthMs tempo = Some u
           \<and> uint u = (60000 div tempo) div 2
           \<and> uint u = \<lfloor>(60000 / real_of_int tempo) / 2\<rfloor>"
proof -
  let ?d = "word_of_int tempo :: ulong"
  have d: "uint ?d = tempo" using assms by (rule uint_bpm)
  then have nz: "?d \<noteq> 0" using assms(1) by auto
  have u: "uint ((60000 div ?d) div 2) = (60000 div tempo) div 2"
    by (simp add: uint_div d)
  have "(60000 div tempo) div 2 = 60000 div (tempo * 2)"
    by (simp add: zdiv_zmult2_eq)
  also have "\<dots> = \<lfloor>real_of_int 60000 / real_of_int (tempo * 2)\<rfloor>"
    by (rule floor_divide_of_int_eq [symmetric])
  also have "\<dots> = \<lfloor>(60000 / real_of_int tempo) / 2\<rfloor>"
    by simp
  finally have "(60000 div tempo) div 2 = \<lfloor>(60000 / real_of_int tempo) / 2\<rfloor>" .
  with nz u show ?thesis by (simp add: eighthMs_def Let_def)
qed

theorem eighthMs_floor_witness:
  "(0::int) < 96 \<and> 96 \<le> INT_MAX \<and> eighthMs 96 = Some 312
   \<and> (\<exists>u. eighthMs 96 = Some u \<and> uint u = (60000 div 96) div 2
            \<and> uint u = \<lfloor>(60000 / real_of_int 96) / 2\<rfloor>)"
proof -
  have h: "(0::int) < 96" "(96::int) \<le> INT_MAX" by (simp_all add: INT_MAX_def)
  have "eighthMs 96 = Some 312" by (simp add: eighthMs_def)
  with h eighthMs_floor [OF h] show ?thesis by blast
qed

section \<open>The lyric indexer follows the subtraction algorithm\<close>

text \<open>
  Claim C1. On a row of note counts that contains the zero terminator, for every
  \<open>notesPlayed \<ge> 0\<close> and every \<open>totalNotes \<ge> 0\<close> (both values of an \<open>int\<close>),
  \<open>getLineInfoFromNotesPlayed\<close> returns a triple: its line index is the first index at
  which the walk stops (the count there is zero, or the remainder \<open>notesPlayed\<close> minus
  the counts up to and including it is negative); its start note is the sum of the
  counts strictly before that index; its span is the count at that index, or
  \<open>max 1 (totalNotes - start)\<close> when that count is zero; the span is at least 1.
  Nothing restricts \<open>notesPlayed\<close> from above but the range of \<open>int\<close>, so the triple is
  also returned once \<open>notesPlayed\<close> has reached \<open>totalNotes\<close>. The last conjuncts
  place the computed values inside the range of \<open>int\<close>: the line index is below
  \<open>MAX_LINES\<close>, the start note is between 0 and 7395, so the subtraction
  \<open>totalNotes - startNote\<close> of the fallback has a result between \<open>INT_MIN\<close> and
  \<open>INT_MAX\<close>, and so has the span. (The remainder \<open>tmp\<close> of the first loop stays
  between -255 and \<open>notesPlayed\<close>, since the loop stops as soon as it is negative.)
\<close>

theorem getLineInfoFromNotesPlayed_subtraction:
  assumes "rd (lineNoteCounts cat) (uint songIdx) = Some row"
    and "terminated row"
    and "0 \<le> notesPlayed" and "notesPlayed \<le> INT_MAX"
    and "0 \<le> totalNotes" and "totalNotes \<le> INT_MAX"
  shows "\<exists>lineIndex lineStartNote lineNoteSpan.
           getLineInfoFromNotesPlayed cat songIdx notesPlayed totalNotes =
             Some (int lineIndex, lineStartNote, lineNoteSpan)
           \<and> firstStop row notesPlayed lineIndex
           \<and> lineStartNote = countsBefore row lineIndex
           \<and> lineNoteSpan =
               (if row ! lineIndex = 0 then max 1 (totalNotes - lineStartNote)
                else uint (row ! lineIndex))
           \<and> 1 \<le> lineNoteSpan
           \<and> lineIndex < unat MAX_LINES
           \<and> 0 \<le> lineStartNote \<and> lineStartNote \<le> 7395
           \<and> INT_MIN \<le> totalNotes - lineStartNote
           \<and> totalNotes - lineStartNote \<le> INT_MAX
           \<and> lineNoteSpan \<le> INT_MAX"
proof -
  from getLineInfo_terminated [OF assms(1,2), of notesPlayed totalNotes]
  obtain r where r:
    "getLineInfoFromNotesPlayed cat songIdx notesPlayed totalNotes =
       Some (int r, countsBefore row r,
             if row ! r = 0 then max 1 (totalNotes - countsBefore row r) else uint (row ! r))"
    "r < unat MAX_LINES"
    "firstStop row notesPlayed r"
    by blast
  let ?span = "if row ! r = 0 then max 1 (totalNotes - countsBefore row r) else uint (row ! r)"
  have s0: "0 \<le> countsBefore row r" by (rule countsBefore_nonneg)
  have "r \<le> 29" using r(2) by (simp add: MAX_LINES_def)
  then have "255 * int r \<le> 7395" by simp
  then have s1: "countsBefore row r \<le> 7395" using countsBefore_le [of row r] by linarith
  have d1: "INT_MIN \<le> totalNotes - countsBefore row r"
    using assms(5) s1 by (simp add: INT_MIN_def)
  have d2: "totalNotes - countsBefore row r \<le> INT_MAX" using assms(6) s0 by simp
  have u: "uint (row ! r) \<le> 255"
  proof -
    have "uint (row ! r) < 2 ^ LENGTH(8)" by (rule uint_lt2p)
    then show ?thesis by simp
  qed
  have lo: "1 \<le> ?span"
  proof (cases "row ! r = 0")
    case True
    then show ?thesis by simp
  next
    case False
    then have "0 < uint (row ! r)" by (rule uint_pos)
    then show ?thesis using False by simp
  qed
  have hi: "?span \<le> INT_MAX"
  proof (cases "row ! r = 0")
    case True
    then show ?thesis using d2 by (simp add: INT_MAX_def)
  next
    case False
    then show ?thesis using u by (simp add: INT_MAX_def)
  qed
  show ?thesis
    using r lo hi s0 s1 d1 d2
    by (intro exI [of _ r] exI [of _ "countsBefore row r"] exI [of _ ?span]) simp
qed

theorem getLineInfoFromNotesPlayed_subtraction_witness:
  "rd (lineNoteCounts karaoke) (uint (2::byte)) = Some (lineNoteCounts_data ! 2)
   \<and> terminated (lineNoteCounts_data ! 2)
   \<and> (0::int) \<le> 47 \<and> 47 \<le> INT_MAX
   \<and> (0::int) \<le> 48 \<and> 48 \<le> INT_MAX
   \<and> (\<exists>lineIndex lineStartNote lineNoteSpan.
           getLineInfoFromNotesPlayed karaoke 2 47 48 =
             Some (int lineIndex, lineStartNote, lineNoteSpan)
           \<and> firstStop (lineNoteCounts_data ! 2) 47 lineIndex
           \<and> lineStartNote = countsBefore (lineNoteCounts_data ! 2) lineIndex
           \<and> lineNoteSpan =
               (if lineNoteCounts_data ! 2 ! lineIndex = 0 then max 1 (48 - lineStartNote)
                else uint (lineNoteCounts_data ! 2 ! lineIndex))
           \<and> 1 \<le> lineNoteSpan
           \<and> lineIndex < unat MAX_LINES
           \<and> 0 \<le> lineStartNote \<and> lineStartNote \<le> 7395
           \<and> INT_MIN \<le> 48 - lineStartNote
           \<and> 48 - lineStartNote \<le> INT_MAX
           \<and> lineNoteSpan \<le> INT_MAX)"
proof -
  have h3: "(0::int) \<le> 47" and h4: "47 \<le> INT_MAX"
    and h5: "(0::int) \<le> 48" and h6: "48 \<le> INT_MAX"
    by (simp_all add: INT_MAX_def)
  note c = getLineInfoFromNotesPlayed_subtraction
    [OF karaoke_row2 terminated_row2 h3 h4 h5 h6]
  show ?thesis by (intro conjI karaoke_row2 terminated_row2 h3 h4 h5 h6 c)
qed

section \<open>Coverage of the defined lines and the notes after them\<close>

text \<open>
  Claim C9, as the code has it. Let \<open>k\<close> be the index of the zero terminator of the
  row (the counts before it are the \<open>k\<close> defined lines, all non-zero), and let the sum of
  those counts be at most \<open>totalNotes\<close> (in particular when it is exactly
  \<open>totalNotes\<close>). Then every defined line index \<open>i < k\<close> is returned for some
  \<open>n\<close> in \<open>0 .. totalNotes - 1\<close>; and every remaining \<open>n\<close>, from the sum up to
  \<open>totalNotes - 1\<close>, is mapped to the index \<open>k\<close> of the terminator itself, one past
  the last defined line, with the sum as start note and \<open>totalNotes\<close> minus the sum as
  span.
\<close>

theorem coverage_and_remainder:
  assumes row: "rd (lineNoteCounts cat) (uint songIdx) = Some row"
    and k: "k < unat MAX_LINES" "k < length row" "row ! k = 0" "0 \<notin> set (take k row)"
    and sum: "countsBefore row k \<le> totalNotes"
  shows "(\<forall>i<k. \<exists>n st sp. 0 \<le> n \<and> n < totalNotes
            \<and> getLineInfoFromNotesPlayed cat songIdx n totalNotes = Some (int i, st, sp))
       \<and> (\<forall>n. countsBefore row k \<le> n \<and> n < totalNotes \<longrightarrow>
            getLineInfoFromNotesPlayed cat songIdx n totalNotes =
              Some (int k, countsBefore row k, totalNotes - countsBefore row k))"
proof (intro conjI allI impI)
  have nz: "\<forall>j<k. row ! j \<noteq> 0" using k(2,4) by (rule defined_lines_nonzero)
  have t: "terminated row" using k(1-3) by (rule terminatedI)
  fix i assume i: "i < k"
  let ?n = "countsBefore row i"
  have il: "i < length row" using k(2) i by simp
  have f: "firstStop row ?n i" using k(2) nz i by (rule firstStop_line_start)
  have "row ! i \<noteq> 0" using nz i by simp
  then have "0 < uint (row ! i)" by (rule uint_pos)
  then have "?n < countsBefore row (Suc i)" using il by (simp add: countsBefore_Suc)
  also have "\<dots> \<le> countsBefore row k" using i by (intro countsBefore_mono) simp
  finally have "?n < totalNotes" using sum by simp
  moreover have "0 \<le> ?n" by (rule countsBefore_nonneg)
  ultimately show "\<exists>n st sp. 0 \<le> n \<and> n < totalNotes
            \<and> getLineInfoFromNotesPlayed cat songIdx n totalNotes = Some (int i, st, sp)"
    using getLineInfo_firstStop [OF row t f, of totalNotes] by blast
next
  have nz: "\<forall>j<k. row ! j \<noteq> 0" using k(2,4) by (rule defined_lines_nonzero)
  have t: "terminated row" using k(1-3) by (rule terminatedI)
  fix n assume n: "countsBefore row k \<le> n \<and> n < totalNotes"
  then have f: "firstStop row n k" using k(3) nz by (intro firstStop_remainder) simp_all
  show "getLineInfoFromNotesPlayed cat songIdx n totalNotes =
              Some (int k, countsBefore row k, totalNotes - countsBefore row k)"
    using getLineInfo_firstStop [OF row t f, of totalNotes] k(3) n by (simp add: max_def)
qed

theorem coverage_and_remainder_witness:
  "rd (lineNoteCounts karaoke) (uint (2::byte)) = Some (lineNoteCounts_data ! 2)
   \<and> (16::nat) < unat MAX_LINES
   \<and> 16 < length (lineNoteCounts_data ! 2)
   \<and> lineNoteCounts_data ! 2 ! 16 = 0
   \<and> 0 \<notin> set (take 16 (lineNoteCounts_data ! 2))
   \<and> countsBefore (lineNoteCounts_data ! 2) 16 \<le> 48
   \<and> (\<exists>n st sp. 0 \<le> n \<and> n < 48
         \<and> getLineInfoFromNotesPlayed karaoke 2 n 48 = Some (15, st, sp))
   \<and> getLineInfoFromNotesPlayed karaoke 2 47 48 = Some (16, 47, 1)"
proof -
  let ?row = "lineNoteCounts_data ! 2"
  have h1: "(16::nat) < unat MAX_LINES" by (simp add: MAX_LINES_def)
  have h2: "16 < length ?row" by (simp add: lineNoteCounts_data_def zeroFill_def MAX_LINES_def)
  have h3: "?row ! 16 = 0" by (simp add: lineNoteCounts_data_def zeroFill_def MAX_LINES_def)
  have h4: "0 \<notin> set (take 16 ?row)"
    by (simp add: lineNoteCounts_data_def zeroFill_def MAX_LINES_def)
  have s: "countsBefore ?row 16 = 47"
    by (simp add: countsBefore_def lineNoteCounts_data_def zeroFill_def MAX_LINES_def)
  then have h5: "countsBefore ?row 16 \<le> 48" by simp
  note c = coverage_and_remainder [OF karaoke_row2 h1 h2 h3 h4 h5]
  have "\<exists>n st sp. 0 \<le> n \<and> n < 48
         \<and> getLineInfoFromNotesPlayed karaoke 2 n 48 = Some (int 15, st, sp)"
    by (rule c [THEN conjunct1, rule_format, of 15]) simp
  then have c1: "\<exists>n st sp. 0 \<le> n \<and> n < 48
         \<and> getLineInfoFromNotesPlayed karaoke 2 n 48 = Some (15, st, sp)" by simp
  have "getLineInfoFromNotesPlayed karaoke 2 47 48 =
          Some (int 16, countsBefore ?row 16, 48 - countsBefore ?row 16)"
    by (rule c [THEN conjunct2, rule_format, of 47]) (simp add: s)
  then have c2: "getLineInfoFromNotesPlayed karaoke 2 47 48 = Some (16, 47, 1)"
    using s by simp
  show ?thesis by (intro conjI karaoke_row2 h1 h2 h3 h4 h5 c1 c2)
qed

text \<open>
  The claim as it is written (the notes after the sum all map to the last line) fails
  on the third song of the compiled-in catalog: its sixteen counts (indices 0 to 15)
  sum to 47, its length is 48, and note 47 is mapped to line index 16, with start note
  47 and span 1, not to the last line, index 15.
\<close>

theorem remainder_not_last_line:
  "countsBefore (lineNoteCounts_data ! 2) 16 = 47
   \<and> uint (melodyLen_data ! 2) = 48
   \<and> lineNoteCounts_data ! 2 ! 15 \<noteq> 0
   \<and> lineNoteCounts_data ! 2 ! 16 = 0
   \<and> getLineInfoFromNotesPlayed karaoke 2 47 (uint (melodyLen_data ! 2)) = Some (16, 47, 1)"
  by code_simp

section \<open>Properties of the line extractor\<close>

lemma splitLines_nonempty: "splitLines s \<noteq> []"
  by (cases s) simp_all

lemma lyricLines_Nil: "lyricLines [] = [[]]"
  by (simp add: lyricLines_def cstring_def)

lemma lyricLines_Cons:
  "lyricLines (c # cs) =
     (if c = NUL then [[]]
      else if c = CR then lyricLines cs
      else if c = LF then [] # lyricLines cs
      else (c # hd (lyricLines cs)) # tl (lyricLines cs))"
  by (simp add: lyricLines_def cstring_def)

lemma lyricLines_nonempty: "lyricLines text \<noteq> []"
  by (simp add: lyricLines_def splitLines_nonempty)

lemma poke_Some: "unat pos < length out \<Longrightarrow> poke out pos c = Some (out[unat pos := c])"
  by (simp add: poke_def)

lemma fill_Nil: "pos < length out \<Longrightarrow> fill out pos [] = out[pos := NUL]"
  by (simp add: fill_def upd_conv_take_nth_drop)

lemma fill_Cons: "pos < length out \<Longrightarrow> fill (out[pos := c]) (Suc pos) s = fill out pos (c # s)"
  by (simp add: fill_def take_Suc_conv_app_nth)

lemma length_fill: "pos + length s < length out \<Longrightarrow> length (fill out pos s) = length out"
  by (simp add: fill_def)

lemma scanLyrics_result:
  assumes os: "outSize \<noteq> 0"
  shows "curLine \<le> lineIndex \<Longrightarrow> unat outSize \<le> length out \<Longrightarrow>
         (curLine = lineIndex \<Longrightarrow> unat pos \<le> unat outSize - 1) \<Longrightarrow>
         scanLyrics lyr lineIndex outSize curLine pos out =
           scanResult lyr (unat outSize - 1) (unat lineIndex - unat curLine)
             (if curLine = lineIndex then unat pos else 0) out"
proof (induction lyr arbitrary: curLine pos out)
  case Nil
  have os': "0 < unat outSize" using os by (simp add: unat_gt_0)
  have pos0: "0 < length out" using os' Nil.prems(2) by linarith
  show ?case
  proof (cases "curLine = lineIndex")
    case True
    then have "unat pos < length out" using Nil.prems os' by fastforce
    then show ?thesis using True
      by (simp add: lastLine_def poke_Some scanResult_def lyricLines_Nil fill_Nil)
  next
    case False
    then have "unat curLine < unat lineIndex" using Nil.prems(1)
      by (simp add: word_less_nat_alt [symmetric])
    then show ?thesis using False pos0
      by (simp add: lastLine_def poke_def scanResult_def lyricLines_Nil)
  qed
next
  case (Cons c p)
  let ?cap = "unat outSize - 1"
  have os': "0 < unat outSize" using os by (simp add: unat_gt_0)
  have pos0: "0 < length out" using os' Cons.prems(2) by linarith
  have capl: "?cap < length out" using os' Cons.prems(2) by linarith
  have cap_eq: "unat (outSize - 1) = ?cap" using os by (rule unat_minus_one)
  show ?case
  proof (cases "curLine = lineIndex")
    case True
    then have ple: "unat pos \<le> ?cap" using Cons.prems(3) by simp
    then have pl: "unat pos < length out" using capl by simp
    consider (nul) "c = NUL" | (cr) "c \<noteq> NUL" "c = CR" | (lf) "c \<noteq> NUL" "c \<noteq> CR" "c = LF"
      | (ch) "c \<noteq> NUL" "c \<noteq> CR" "c \<noteq> LF" by blast
    then show ?thesis
    proof cases
      case nul
      then show ?thesis using True pl
        by (simp add: lastLine_def poke_Some scanResult_def lyricLines_Cons fill_Nil)
    next
      case cr
      then show ?thesis using True Cons.IH [of curLine out pos] Cons.prems
        by (simp add: scanResult_def lyricLines_Cons)
    next
      case lf
      then show ?thesis using True pl
        by (simp add: poke_Some scanResult_def lyricLines_Cons fill_Nil)
    next
      case ch
      show ?thesis
      proof (cases "pos < outSize - 1")
        case lt: True
        then have plt: "unat pos < ?cap" using cap_eq by (simp add: word_less_nat_alt)
        moreover have "unat outSize < 2 ^ LENGTH(8)" by (rule unsigned_less)
        ultimately have "unat pos + unat (1::byte) < 2 ^ LENGTH(8)" by simp
        then have p1: "unat (pos + 1) = Suc (unat pos)"
          by (simp add: unat_add_lem [THEN iffD1])
        have len': "unat outSize \<le> length (out[unat pos := c])" using Cons.prems(2) by simp
        have "scanLyrics (c # p) lineIndex outSize curLine pos out =
                scanLyrics p lineIndex outSize curLine (pos + 1) (out[unat pos := c])"
          using ch True lt pl by (simp add: poke_Some)
        also have "\<dots> = scanResult p ?cap 0 (Suc (unat pos)) (out[unat pos := c])"
          using Cons.IH [of curLine "out[unat pos := c]" "pos + 1"] Cons.prems(1) len' True p1 plt
          by simp
        also have "\<dots> = scanResult (c # p) ?cap 0 (unat pos) out"
          using ch plt pl lyricLines_nonempty [of p]
          by (simp add: scanResult_def lyricLines_Cons fill_Cons Suc_diff_Suc
              take_Suc_Cons [symmetric] hd_conv_nth del: take_Suc_Cons)
        finally show ?thesis using True by simp
      next
        case ge: False
        then have peq: "unat pos = ?cap" using cap_eq ple by (simp add: word_less_nat_alt)
        have "scanLyrics (c # p) lineIndex outSize curLine pos out =
                scanLyrics p lineIndex outSize curLine pos out"
          using ch True ge by simp
        also have "\<dots> = scanResult p ?cap 0 (unat pos) out"
          using Cons.IH [of curLine out pos] Cons.prems True by simp
        also have "\<dots> = scanResult (c # p) ?cap 0 (unat pos) out"
          using ch peq lyricLines_nonempty [of p]
          by (simp add: scanResult_def lyricLines_Cons)
        finally show ?thesis using True by simp
      qed
    qed
  next
    case False
    then have lt: "curLine < lineIndex" using Cons.prems(1) by simp
    then have dpos: "unat curLine < unat lineIndex" by (simp add: word_less_nat_alt)
    consider (nul) "c = NUL" | (cr) "c \<noteq> NUL" "c = CR" | (lf) "c \<noteq> NUL" "c \<noteq> CR" "c = LF"
      | (ch) "c \<noteq> NUL" "c \<noteq> CR" "c \<noteq> LF" by blast
    then show ?thesis
    proof cases
      case nul
      then show ?thesis using False dpos pos0
        by (simp add: lastLine_def poke_def scanResult_def lyricLines_Cons)
    next
      case cr
      then show ?thesis using False Cons.IH [of curLine out pos] Cons.prems
        by (simp add: scanResult_def lyricLines_Cons)
    next
      case lf
      have "unat lineIndex < 2 ^ LENGTH(8)" by (rule unsigned_less)
      then have "unat curLine + unat (1::byte) < 2 ^ LENGTH(8)" using dpos by simp
      then have c1: "unat (curLine + 1) = Suc (unat curLine)"
        by (simp add: unat_add_lem [THEN iffD1])
      have le1: "curLine + 1 \<le> lineIndex" using lt by (rule inc_le)
      have step: "scanLyrics (c # p) lineIndex outSize curLine pos out =
                    scanLyrics p lineIndex outSize (curLine + 1) 0 out"
        using lf False by simp
      have ih: "scanLyrics p lineIndex outSize (curLine + 1) 0 out =
              scanResult p ?cap (unat lineIndex - unat (curLine + 1))
                (if curLine + 1 = lineIndex then unat (0::byte) else 0) out"
        using Cons.IH [of "curLine + 1" out 0] le1 Cons.prems(2) by simp
      have d: "unat lineIndex - unat curLine = Suc (unat lineIndex - unat (curLine + 1))"
        using dpos c1 by simp
      show ?thesis using step ih d lf False
        by (simp add: scanResult_def lyricLines_Cons)
    next
      case ch
      have "scanLyrics (c # p) lineIndex outSize curLine pos out =
                scanLyrics p lineIndex outSize curLine pos out"
        using ch False by simp
      also have "\<dots> = scanResult p ?cap (unat lineIndex - unat curLine) 0 out"
        using Cons.IH [of curLine out pos] Cons.prems False by simp
      also have "\<dots> = scanResult (c # p) ?cap (unat lineIndex - unat curLine) 0 out"
      proof -
        obtain d where d: "unat lineIndex - unat curLine = Suc d"
          using dpos by (metis Suc_diff_Suc)
        obtain l ls where ls: "lyricLines p = l # ls"
          using lyricLines_nonempty [of p] by (cases "lyricLines p") auto
        show ?thesis using ch d ls by (simp add: scanResult_def lyricLines_Cons)
      qed
      finally show ?thesis using False by simp
    qed
  qed
qed

lemma splitLines_subset: "l \<in> set (splitLines s) \<Longrightarrow> set l \<subseteq> set s"
proof (induction s arbitrary: l)
  case Nil
  then show ?case by simp
next
  case (Cons c cs)
  obtain h t where ht: "splitLines cs = h # t"
    using splitLines_nonempty [of cs] by (cases "splitLines cs") auto
  show ?case
  proof (cases "c = LF")
    case True
    then show ?thesis using Cons by auto
  next
    case False
    then have "l = c # h \<or> l \<in> set t" using Cons.prems ht by simp
    then show ?thesis
    proof
      assume "l = c # h"
      moreover have "set h \<subseteq> set cs" using Cons.IH [of h] ht by simp
      ultimately show ?thesis by auto
    next
      assume "l \<in> set t"
      then have "set l \<subseteq> set cs" using Cons.IH [of l] ht by simp
      then show ?thesis by auto
    qed
  qed
qed

lemma lyricLines_no_NUL:
  assumes "d < length (lyricLines lyr)"
  shows "NUL \<notin> set (lyricLines lyr ! d)"
proof -
  have "lyricLines lyr ! d \<in> set (lyricLines lyr)" using assms by simp
  then have "set (lyricLines lyr ! d) \<subseteq> set (filter (\<lambda>c. c \<noteq> CR) (cstring lyr))"
    unfolding lyricLines_def by (rule splitLines_subset)
  moreover have "NUL \<notin> set (cstring lyr)"
    unfolding cstring_def by (metis (mono_tags, lifting) set_takeWhileD)
  ultimately show ?thesis by auto
qed

lemma cstring_fill: "NUL \<notin> set s \<Longrightarrow> cstring (fill out 0 s) = s"
  by (auto simp: fill_def cstring_def takeWhile_tail)

lemma nulTerminated_fill: "nulTerminated (fill out q s)"
  by (simp add: fill_def nulTerminated_def)

lemma drop_fill:
  "length s < n \<Longrightarrow> drop n (fill out 0 s) = drop n out"
proof -
  assume "length s < n"
  then obtain m where n: "n = Suc (length s + m)"
    by (metis less_iff_Suc_add add_Suc_right)
  show ?thesis unfolding n by (simp add: fill_def add.commute)
qed

lemma fill_update0: "fill (out[0 := c]) 0 s = fill out 0 s"
  by (simp add: fill_def drop_update_cancel)

text \<open>The extractor in closed form, for a buffer size that is not zero.\<close>

lemma getLyricLine_closed:
  assumes os: "outSize \<noteq> 0" and len: "unat outSize \<le> length out"
  shows "getLyricLine cat songIdx lineIndex out outSize =
           (case getLyricsPtr cat songIdx of
              None \<Rightarrow> Some (False, out[0 := NUL])
            | Some lyr \<Rightarrow>
                if unat lineIndex < length (lyricLines lyr)
                then Some (True, fill out 0 (take (unat outSize - 1) (lyricLines lyr ! unat lineIndex)))
                else Some (False, out[0 := NUL]))"
proof -
  have os': "0 < unat outSize" using os by (simp add: unat_gt_0)
  then have l0: "0 < length out" using len by linarith
  then have p0: "poke out 0 NUL = Some (out[0 := NUL])" by (simp add: poke_def)
  show ?thesis
  proof (cases "getLyricsPtr cat songIdx")
    case None
    then show ?thesis using os p0 by (simp add: getLyricLine_def)
  next
    case (Some lyr)
    have len0: "unat outSize \<le> length (out[0 := NUL])" using len by simp
    have "scanLyrics lyr lineIndex outSize 0 0 (out[0 := NUL]) =
            scanResult lyr (unat outSize - 1) (unat lineIndex - unat (0::byte))
              (if (0::byte) = lineIndex then unat (0::byte) else 0) (out[0 := NUL])"
      using os word_zero_le len0 by (rule scanLyrics_result) simp
    then have "scanLyrics lyr lineIndex outSize 0 0 (out[0 := NUL]) =
            scanResult lyr (unat outSize - 1) (unat lineIndex) 0 (out[0 := NUL])"
      by simp
    then show ?thesis using Some os p0
      by (simp add: getLyricLine_def scanResult_def fill_update0)
  qed
qed

lemma fill_nth_NUL: "fill out 0 s ! length s = NUL"
  by (simp add: fill_def nth_append)

lemma nulTerminated_take_fill:
  assumes "length s < n" and "length s < length out"
  shows "nulTerminated (take n (fill out 0 s))"
proof -
  have "length s < length (take n (fill out 0 s))"
    using assms by (simp add: length_fill)
  then have "take n (fill out 0 s) ! length s \<in> set (take n (fill out 0 s))"
    by (rule nth_mem)
  then show ?thesis using assms(1) by (simp add: fill_nth_NUL nulTerminated_def)
qed

lemma nulTerminated_take_update0:
  assumes "0 < n" and "0 < length out"
  shows "nulTerminated (take n (out[0 := NUL]))"
proof -
  have "0 < length (take n (out[0 := NUL]))" using assms by simp
  then have "take n (out[0 := NUL]) ! 0 \<in> set (take n (out[0 := NUL]))"
    by (rule nth_mem)
  then show ?thesis using assms by (simp add: nulTerminated_def)
qed

lemma nulTerminated_takeD: "nulTerminated (take n buf) \<Longrightarrow> nulTerminated buf"
  unfolding nulTerminated_def by (rule in_set_takeD)

lemma cstring_update0: "0 < length out \<Longrightarrow> cstring (out[0 := NUL]) = []"
  by (cases out) (simp_all add: cstring_def)

text \<open>The facts about the buffer that both claims on the extractor use.\<close>

lemma getLyricLine_buffer:
  assumes os: "outSize \<noteq> 0" and len: "unat outSize \<le> length out"
  shows "\<exists>found out'.
           getLyricLine cat songIdx lineIndex out outSize = Some (found, out')
           \<and> (found \<longleftrightarrow> lineExists cat songIdx lineIndex)
           \<and> length out' = length out
           \<and> drop (unat outSize) out' = drop (unat outSize) out
           \<and> nulTerminated (take (unat outSize) out')
           \<and> (found \<longrightarrow> (\<exists>lyr. getLyricsPtr cat songIdx = Some lyr
                 \<and> cstring out' = take (unat outSize - 1) (lyricLines lyr ! unat lineIndex)))
           \<and> (\<not> found \<longrightarrow> cstring out' = [])"
proof -
  have os': "0 < unat outSize" using os by (simp add: unat_gt_0)
  then have l0: "0 < length out" using len by linarith
  note closed = getLyricLine_closed [OF os len, of cat songIdx lineIndex]
  have fail: ?thesis
    if r: "getLyricLine cat songIdx lineIndex out outSize = Some (False, out[0 := NUL])"
      and ne: "\<not> lineExists cat songIdx lineIndex"
  proof -
    have "drop (unat outSize) (out[0 := NUL]) = drop (unat outSize) out"
      using os' by (simp add: drop_update_cancel)
    moreover have "nulTerminated (take (unat outSize) (out[0 := NUL]))"
      using os' l0 by (rule nulTerminated_take_update0)
    moreover have "cstring (out[0 := NUL]) = []" using l0 by (rule cstring_update0)
    ultimately show ?thesis using r ne
      by (intro exI [of _ False] exI [of _ "out[0 := NUL]"]) simp
  qed
  show ?thesis
  proof (cases "getLyricsPtr cat songIdx")
    case None
    then show ?thesis using closed by (intro fail) (simp_all add: lineExists_def)
  next
    case (Some lyr)
    show ?thesis
    proof (cases "unat lineIndex < length (lyricLines lyr)")
      case False
      then show ?thesis using closed Some by (intro fail) (simp_all add: lineExists_def)
    next
      case True
      let ?s = "take (unat outSize - 1) (lyricLines lyr ! unat lineIndex)"
      have r: "getLyricLine cat songIdx lineIndex out outSize = Some (True, fill out 0 ?s)"
        using closed Some True by simp
      have ex: "lineExists cat songIdx lineIndex" using Some True by (simp add: lineExists_def)
      have ls: "length ?s < unat outSize" using os' by simp
      then have ll: "length ?s < length out" using len by linarith
      have "NUL \<notin> set (lyricLines lyr ! unat lineIndex)"
        using True by (rule lyricLines_no_NUL)
      then have "NUL \<notin> set ?s" by (metis in_set_takeD)
      then have cs: "cstring (fill out 0 ?s) = ?s" by (rule cstring_fill)
      have "length (fill out 0 ?s) = length out" using ll by (simp add: length_fill)
      moreover have "drop (unat outSize) (fill out 0 ?s) = drop (unat outSize) out"
        using ls by (rule drop_fill)
      moreover have "nulTerminated (take (unat outSize) (fill out 0 ?s))"
        using ls ll by (rule nulTerminated_take_fill)
      ultimately show ?thesis using r ex cs Some
        by (intro exI [of _ True] exI [of _ "fill out 0 ?s"]) simp
    qed
  qed
qed

section \<open>Truncation to the buffer size\<close>

text \<open>
  Claim C8. For every song index and line index, and every buffer size \<open>outSize \<ge> 1\<close>
  that the buffer has room for, \<open>getLyricLine\<close> returns without a write outside the
  buffer (the result is \<open>Some\<close>, also when the buffer has exactly \<open>outSize\<close> bytes),
  the bytes from index \<open>outSize\<close> on are unchanged, a NUL stands among the first
  \<open>outSize\<close> bytes, and the string in the buffer has at most \<open>outSize - 1\<close>
  characters; when the line is found, that string is the first \<open>outSize - 1\<close>
  characters of the line, so a longer line is cut to exactly \<open>outSize - 1\<close> characters.
\<close>

theorem getLyricLine_truncates:
  assumes "outSize \<noteq> 0" and "unat outSize \<le> length out"
  shows "\<exists>found out'.
           getLyricLine cat songIdx lineIndex out outSize = Some (found, out')
           \<and> length out' = length out
           \<and> drop (unat outSize) out' = drop (unat outSize) out
           \<and> nulTerminated (take (unat outSize) out')
           \<and> length (cstring out') \<le> unat outSize - 1
           \<and> (found \<longrightarrow> (\<exists>lyr. getLyricsPtr cat songIdx = Some lyr
                 \<and> cstring out' = take (unat outSize - 1) (lyricLines lyr ! unat lineIndex)))"
proof -
  from getLyricLine_buffer [OF assms, of cat songIdx lineIndex]
  obtain found out' where r:
    "getLyricLine cat songIdx lineIndex out outSize = Some (found, out')"
    "length out' = length out"
    "drop (unat outSize) out' = drop (unat outSize) out"
    "nulTerminated (take (unat outSize) out')"
    "found \<longrightarrow> (\<exists>lyr. getLyricsPtr cat songIdx = Some lyr
        \<and> cstring out' = take (unat outSize - 1) (lyricLines lyr ! unat lineIndex))"
    "\<not> found \<longrightarrow> cstring out' = []"
    by blast
  have "length (cstring out') \<le> unat outSize - 1"
  proof (cases found)
    case True
    with r(5) obtain lyr where
      "cstring out' = take (unat outSize - 1) (lyricLines lyr ! unat lineIndex)" by blast
    then show ?thesis by simp
  next
    case False
    with r(6) show ?thesis by simp
  qed
  with r(1-5) show ?thesis by blast
qed

theorem getLyricLine_truncates_witness:
  "(3::byte) \<noteq> 0
   \<and> unat (3::byte) \<le> length (replicate 3 (CHR ''x''))
   \<and> getLyricLine abcCatalog 0 2 (replicate 3 (CHR ''x'')) 3 = Some (True, ''CC'' @ [NUL])
   \<and> (\<exists>found out'.
           getLyricLine abcCatalog 0 2 (replicate 3 (CHR ''x'')) 3 = Some (found, out')
           \<and> length out' = length (replicate 3 (CHR ''x''))
           \<and> drop (unat (3::byte)) out' = drop (unat (3::byte)) (replicate 3 (CHR ''x''))
           \<and> nulTerminated (take (unat (3::byte)) out')
           \<and> length (cstring out') \<le> unat (3::byte) - 1
           \<and> (found \<longrightarrow> (\<exists>lyr. getLyricsPtr abcCatalog 0 = Some lyr
                 \<and> cstring out' = take (unat (3::byte) - 1) (lyricLines lyr ! unat (2::byte)))))"
proof -
  have h1: "(3::byte) \<noteq> 0" by simp
  have h2: "unat (3::byte) \<le> length (replicate 3 (CHR ''x''))" by simp
  have e: "getLyricLine abcCatalog 0 2 (replicate 3 (CHR ''x'')) 3 = Some (True, ''CC'' @ [NUL])"
    by code_simp
  note c = getLyricLine_truncates [OF h1 h2, of abcCatalog 0 2]
  show ?thesis by (intro conjI h1 h2 e c)
qed

section \<open>A line is found exactly when it exists\<close>

text \<open>
  Claim C5, as the code has it. For every song index, line index and buffer, and every
  buffer size \<open>outSize \<ge> 1\<close> that the buffer has room for, \<open>getLyricLine\<close> returns true
  if and only if the song has a lyric text with a line of that index, and it leaves the
  buffer NUL-terminated, holding the empty string when it returns false. When
  \<open>outSize\<close> is zero it returns false and leaves the buffer as it was. For the lyric
  text of the three lines \<open>A\<close>, \<open>BB\<close>, \<open>CCC\<close> and a buffer of 17 bytes, line 0
  gives \<open>A\<close> and true, line 2 gives \<open>CCC\<close> and true, line 3 gives the empty string
  and false (shown by the instance below).
\<close>

theorem getLyricLine_found_iff:
  "(outSize \<noteq> 0 \<and> unat outSize \<le> length out \<longrightarrow>
      (\<exists>found out'.
         getLyricLine cat songIdx lineIndex out outSize = Some (found, out')
         \<and> (found \<longleftrightarrow> lineExists cat songIdx lineIndex)
         \<and> nulTerminated out'
         \<and> (\<not> found \<longrightarrow> cstring out' = [])))
   \<and> getLyricLine cat songIdx lineIndex out 0 = Some (False, out)"
proof (intro conjI impI)
  assume a: "outSize \<noteq> 0 \<and> unat outSize \<le> length out"
  then have os: "outSize \<noteq> 0" and len: "unat outSize \<le> length out" by simp_all
  from getLyricLine_buffer [OF os len, of cat songIdx lineIndex]
  obtain found out' where r:
    "getLyricLine cat songIdx lineIndex out outSize = Some (found, out')"
    "found \<longleftrightarrow> lineExists cat songIdx lineIndex"
    "nulTerminated (take (unat outSize) out')"
    "\<not> found \<longrightarrow> cstring out' = []"
    by blast
  from r(3) have "nulTerminated out'" by (rule nulTerminated_takeD)
  with r(1,2,4) show "\<exists>found out'.
         getLyricLine cat songIdx lineIndex out outSize = Some (found, out')
         \<and> (found \<longleftrightarrow> lineExists cat songIdx lineIndex)
         \<and> nulTerminated out'
         \<and> (\<not> found \<longrightarrow> cstring out' = [])" by blast
next
  show "getLyricLine cat songIdx lineIndex out 0 = Some (False, out)"
    by (simp add: getLyricLine_def)
qed

theorem getLyricLine_found_iff_witness:
  "(17::byte) \<noteq> 0
   \<and> unat (17::byte) \<le> length (replicate 17 (CHR ''x''))
   \<and> getLyricLine abcCatalog 0 0 (replicate 17 (CHR ''x'')) 17 =
         Some (True, ''A'' @ NUL # replicate 15 (CHR ''x''))
   \<and> cstring (''A'' @ NUL # replicate 15 (CHR ''x'')) = ''A''
   \<and> getLyricLine abcCatalog 0 2 (replicate 17 (CHR ''x'')) 17 =
         Some (True, ''CCC'' @ NUL # replicate 13 (CHR ''x''))
   \<and> cstring (''CCC'' @ NUL # replicate 13 (CHR ''x'')) = ''CCC''
   \<and> getLyricLine abcCatalog 0 3 (replicate 17 (CHR ''x'')) 17 =
         Some (False, NUL # replicate 16 (CHR ''x''))
   \<and> cstring (NUL # replicate 16 (CHR ''x'')) = []
   \<and> (\<exists>found out'.
         getLyricLine abcCatalog 0 3 (replicate 17 (CHR ''x'')) 17 = Some (found, out')
         \<and> (found \<longleftrightarrow> lineExists abcCatalog 0 3)
         \<and> nulTerminated out'
         \<and> (\<not> found \<longrightarrow> cstring out' = []))"
proof -
  have h1: "(17::byte) \<noteq> 0" by simp
  have h2: "unat (17::byte) \<le> length (replicate 17 (CHR ''x''))" by simp
  have e0: "getLyricLine abcCatalog 0 0 (replicate 17 (CHR ''x'')) 17 =
         Some (True, ''A'' @ NUL # replicate 15 (CHR ''x''))"
    by code_simp
  have s0: "cstring (''A'' @ NUL # replicate 15 (CHR ''x'')) = ''A''"
    by (simp add: cstring_def)
  have e2: "getLyricLine abcCatalog 0 2 (replicate 17 (CHR ''x'')) 17 =
         Some (True, ''CCC'' @ NUL # replicate 13 (CHR ''x''))"
    by code_simp
  have s2: "cstring (''CCC'' @ NUL # replicate 13 (CHR ''x'')) = ''CCC''"
    by (simp add: cstring_def)
  have e3: "getLyricLine abcCatalog 0 3 (replicate 17 (CHR ''x'')) 17 =
         Some (False, NUL # replicate 16 (CHR ''x''))"
    by code_simp
  have s3: "cstring (NUL # replicate 16 (CHR ''x'')) = []"
    by (simp add: cstring_def)
  have c: "\<exists>found out'.
         getLyricLine abcCatalog 0 3 (replicate 17 (CHR ''x'')) 17 = Some (found, out')
         \<and> (found \<longleftrightarrow> lineExists abcCatalog 0 3)
         \<and> nulTerminated out'
         \<and> (\<not> found \<longrightarrow> cstring out' = [])"
    using getLyricLine_found_iff [of 17 "replicate 17 (CHR ''x'')" abcCatalog 0 3, THEN conjunct1]
      h1 h2 by blast
  show ?thesis by (intro conjI h1 h2 e0 s0 e2 s2 e3 s3 c)
qed

text \<open>
  The claim as it is written also covers \<open>outSize = 0\<close>, and there it fails: for the
  same lyric text, line 0 exists, yet with \<open>outSize = 0\<close> the function returns false and
  leaves the two-byte buffer \<open>xy\<close> as it was, which holds no NUL and not the empty
  string.
\<close>

theorem getLyricLine_zero_size:
  "getLyricLine abcCatalog 0 0 ''xy'' 0 = Some (False, ''xy'')
   \<and> lineExists abcCatalog 0 0
   \<and> \<not> nulTerminated ''xy''
   \<and> cstring ''xy'' \<noteq> []"
  by code_simp

section \<open>Properties of the playback engine\<close>

lemma allLEDsOff_eq: "allLEDsOff tr = tr @ ledsOff"
  by (simp add: allLEDsOff_def ledsOff_def LED_PINS_def digitalWrite_def)

lemma printChars_lcd:
  "\<exists>es. snd (printChars i s tr) = tr @ es \<and> list_all isLcd es"
proof (induction s arbitrary: i tr)
  case Nil
  then show ?case by simp
next
  case (Cons c cs)
  show ?case
  proof (cases "i < 16 \<and> c \<noteq> NUL")
    case True
    from Cons [of "Suc i" "tr @ [LcdPrint c]"] obtain es where
      es: "snd (printChars (Suc i) cs (tr @ [LcdPrint c])) = (tr @ [LcdPrint c]) @ es"
        "list_all isLcd es" by blast
    have "snd (printChars i (c # cs) tr) = tr @ (LcdPrint c # es)"
      using True es(1) by simp
    moreover have "list_all isLcd (LcdPrint c # es)" using es(2) by simp
    ultimately show ?thesis by blast
  next
    case False
    then have "snd (printChars i (c # cs) tr) = tr @ []" by auto
    moreover have "list_all isLcd []" by simp
    ultimately show ?thesis by blast
  qed
qed

lemma padSpaces_lcd:
  "\<exists>es. padSpaces i tr = tr @ es \<and> list_all isLcd es"
proof (induction i tr rule: padSpaces.induct)
  case (1 i tr)
  show ?case
  proof (cases "i < 16")
    case True
    from 1 [OF True] obtain es where
      es: "padSpaces (Suc i) (tr @ [LcdPrint (CHR '' '')]) = (tr @ [LcdPrint (CHR '' '')]) @ es"
        "list_all isLcd es" by blast
    have "padSpaces i tr = tr @ (LcdPrint (CHR '' '') # es)"
      using True es(1) by (subst padSpaces.simps) simp
    moreover have "list_all isLcd (LcdPrint (CHR '' '') # es)" using es(2) by simp
    ultimately show ?thesis by blast
  next
    case False
    then have "padSpaces i tr = tr @ []" by (subst padSpaces.simps) simp
    moreover have "list_all isLcd []" by simp
    ultimately show ?thesis by blast
  qed
qed

lemma lcdPrintFixed_lcd:
  "\<exists>es. lcdPrintFixed col row s tr = tr @ es \<and> list_all isLcd es"
proof -
  obtain i tr1 where p: "printChars 0 s (tr @ [LcdSetCursor col row]) = (i, tr1)"
    by (cases "printChars 0 s (tr @ [LcdSetCursor col row])")
  from printChars_lcd [of 0 s "tr @ [LcdSetCursor col row]"] p obtain es1 where
    es1: "tr1 = (tr @ [LcdSetCursor col row]) @ es1" "list_all isLcd es1" by auto
  from padSpaces_lcd [of i tr1] obtain es2 where
    es2: "padSpaces i tr1 = tr1 @ es2" "list_all isLcd es2" by blast
  have "lcdPrintFixed col row s tr = tr @ (LcdSetCursor col row # es1 @ es2)"
    using p es1(1) es2(1) by (simp add: lcdPrintFixed_def)
  moreover have "list_all isLcd (LcdSetCursor col row # es1 @ es2)"
    using es1(2) es2(2) by simp
  ultimately show ?thesis by blast
qed

lemma showTwoLines_lcd:
  "\<exists>es. showTwoLines l1 l2 tr = tr @ es \<and> list_all isLcd es"
proof -
  from lcdPrintFixed_lcd [of 0 0 l1 tr] obtain es1 where
    es1: "lcdPrintFixed 0 0 l1 tr = tr @ es1" "list_all isLcd es1" by blast
  from lcdPrintFixed_lcd [of 0 1 l2 "tr @ es1"] obtain es2 where
    es2: "lcdPrintFixed 0 1 l2 (tr @ es1) = (tr @ es1) @ es2" "list_all isLcd es2" by blast
  have "showTwoLines l1 l2 tr = tr @ (es1 @ es2)"
    using es1(1) es2(1) by (simp add: showTwoLines_def)
  moreover have "list_all isLcd (es1 @ es2)" using es1(2) es2(2) by simp
  ultimately show ?thesis by blast
qed

lemma clampLed_unat: "unat (clampLed v) = min (unat v) 4"
  by (simp add: clampLed_def word_less_nat_alt min_def)

lemma clampLed_pin:
  "rd LED_PINS (uint (clampLed v)) = Some (LED_PINS ! min (unat v) 4)"
proof -
  have "uint (clampLed v) = int (min (unat v) 4)"
    using clampLed_unat [of v] by (metis uint_nat)
  moreover have "min (unat v) 4 < length LED_PINS" by (simp add: LED_PINS_def)
  ultimately show ?thesis by (simp add: rd_Some)
qed

lemma rd2_Some:
  "rd t i = Some r \<Longrightarrow> 0 \<le> n \<Longrightarrow> nat n < length r \<Longrightarrow> rd2 t i n = Some (r ! nat n)"
  by (simp add: rd2_def rd_def)

lemma startNote_events:
  "startNote noteHz (clampLed v) tr =
     Some (tr @ (if noteHz \<noteq> NOTE_REST
                 then [DigitalWrite (LED_PINS ! unat (clampLed v)) True, Tone BUZZER_PIN noteHz]
                 else [NoTone BUZZER_PIN]))"
  by (simp add: startNote_def clampLed_pin clampLed_unat tone_def noTone_def digitalWrite_def)

lemma refreshLyrics_lcd:
  assumes t: "17 \<le> length (top_buf disp)" and b: "17 \<le> length (bot_buf disp)"
  shows "\<exists>disp' es. refreshLyrics cat songIdx lineIndex0 disp tr = Some (disp', tr @ es)
           \<and> list_all isLcd es
           \<and> 17 \<le> length (top_buf disp') \<and> 17 \<le> length (bot_buf disp')"
proof (cases "lineIndex0 = lastLineDisplayed disp")
  case True
  then have "refreshLyrics cat songIdx lineIndex0 disp tr = Some (disp, tr @ [])"
    by (simp add: refreshLyrics_def)
  moreover have "list_all isLcd []" by simp
  ultimately show ?thesis using t b by blast
next
  case False
  have os: "(17::byte) \<noteq> 0" by simp
  have lt: "unat (17::byte) \<le> length (top_buf disp)" using t by simp
  have lb: "unat (17::byte) \<le> length (bot_buf disp)" using b by simp
  from getLyricLine_buffer [OF os lt, of cat songIdx "word_of_int lineIndex0"]
  obtain ok1 top1 where g1:
    "getLyricLine cat songIdx (word_of_int lineIndex0) (top_buf disp) 17 = Some (ok1, top1)"
    "length top1 = length (top_buf disp)" by blast
  from getLyricLine_buffer [OF os lb, of cat songIdx "word_of_int (lineIndex0 + 1)"]
  obtain ok2 bot1 where g2:
    "getLyricLine cat songIdx (word_of_int (lineIndex0 + 1)) (bot_buf disp) 17 = Some (ok2, bot1)"
    "length bot1 = length (bot_buf disp)" by blast
  define top2 where "top2 = (if \<not> ok1 then top1[0 := NUL] else top1)"
  define bot2 where "bot2 = (if \<not> ok2 then bot1[0 := NUL] else bot1)"
  have "0 < length top1" using g1(2) t by linarith
  moreover have "0 < length bot1" using g2(2) b by linarith
  ultimately have "top1 \<noteq> []" "bot1 \<noteq> []" by simp_all
  then have p1: "(if \<not> ok1 then poke top1 0 NUL else Some top1) = Some top2"
    and p2: "(if \<not> ok2 then poke bot1 0 NUL else Some bot1) = Some bot2"
    by (simp_all add: top2_def bot2_def poke_def)
  from showTwoLines_lcd [of top2 bot2 tr] obtain es where
    es: "showTwoLines top2 bot2 tr = tr @ es" "list_all isLcd es" by blast
  have "refreshLyrics cat songIdx lineIndex0 disp tr =
          Some (\<lparr> lastLineDisplayed = lineIndex0, top_buf = top2, bot_buf = bot2 \<rparr>, tr @ es)"
    using False g1(1) g2(1) p1 p2 es(1) by (simp add: refreshLyrics_def)
  moreover have "17 \<le> length top2" "17 \<le> length bot2"
    using g1(2) g2(2) t b by (simp_all add: top2_def bot2_def)
  ultimately show ?thesis using es(2)
    by (intro exI [of _ "\<lparr> lastLineDisplayed = lineIndex0, top_buf = top2, bot_buf = bot2 \<rparr>"]
        exI [of _ es]) simp
qed

lemma playNote_events:
  assumes row: "rd (lineNoteCounts cat) (uint songIdx) = Some row" and trm: "terminated row"
    and hz: "rd2 (melodyNotes cat) (uint songIdx) n = Some noteHz"
    and du: "rd2 (durationUnits cat) (uint songIdx) n = Some durU"
    and li: "rd2 (ledIndex cat) (uint songIdx) n = Some v"
    and t: "17 \<le> length (top_buf disp)" and b: "17 \<le> length (bot_buf disp)"
  shows "\<exists>disp' es. playNote cat songIdx totalNotes unitMs n disp tr =
             Some (disp', tr @ es @ noteEvents noteHz durU unitMs v)
           \<and> list_all isLcd es
           \<and> 17 \<le> length (top_buf disp') \<and> 17 \<le> length (bot_buf disp')"
proof -
  from getLineInfo_terminated [OF row trm, of n totalNotes]
  obtain l s c where info:
    "getLineInfoFromNotesPlayed cat songIdx n totalNotes = Some (l, s, c)" by blast
  from refreshLyrics_lcd [OF t b, of cat songIdx l tr]
  obtain disp' es where r:
    "refreshLyrics cat songIdx l disp tr = Some (disp', tr @ es)" "list_all isLcd es"
    "17 \<le> length (top_buf disp')" "17 \<le> length (bot_buf disp')" by blast
  obtain total on off where tm: "noteTiming durU unitMs = (total, on, off)"
    by (cases "noteTiming durU unitMs") auto
  have "playNote cat songIdx totalNotes unitMs n disp tr =
          Some (disp', tr @ es @ noteEvents noteHz durU unitMs v)"
    unfolding playNote_def
    using info r(1) hz du li tm
    by (simp add: startNote_events allLEDsOff_eq noteEvents_def busyWait_def noTone_def)
  with r(2-4) show ?thesis by blast
qed

lemma lcd_no_wait: "list_all isLcd es \<Longrightarrow> filter isWait es = []"
  by (induction es) (auto elim: isLcd.elims)

lemma lcd_no_switch: "list_all isLcd es \<Longrightarrow> filter isSwitchOn es = []"
  by (induction es) (auto elim: isLcd.elims)

lemma ledsOff_no_wait: "filter isWait ledsOff = []"
  by (simp add: ledsOff_def LED_PINS_def)

lemma ledsOff_no_switch: "filter isSwitchOn ledsOff = []"
  by (simp add: ledsOff_def LED_PINS_def)

lemma noteEvents_waits: "length (filter isWait (noteEvents noteHz durU unitMs v)) = 2"
  by (cases "noteTiming durU unitMs") (simp add: noteEvents_def ledsOff_no_wait)

lemma noteEvents_switches:
  "length (filter isSwitchOn (noteEvents noteHz durU unitMs v)) =
     (if noteHz \<noteq> NOTE_REST then 1 else 0)"
  by (cases "noteTiming durU unitMs") (simp add: noteEvents_def ledsOff_no_switch)

lemma playNotes_counts:
  assumes row: "rd (lineNoteCounts cat) (uint songIdx) = Some row" and trm: "terminated row"
    and nts: "rd (melodyNotes cat) (uint songIdx) = Some notes"
    and durs: "rd (durationUnits cat) (uint songIdx) = Some durs"
    and leds: "rd (ledIndex cat) (uint songIdx) = Some leds"
  shows "\<forall>n\<in>set ns. n < length notes \<and> n < length durs \<and> n < length leds \<Longrightarrow>
         17 \<le> length (top_buf disp) \<Longrightarrow> 17 \<le> length (bot_buf disp) \<Longrightarrow>
         \<exists>disp' tr'. playNotes cat songIdx totalNotes unitMs (map int ns) disp tr = Some (disp', tr')
           \<and> length (filter isWait tr') = length (filter isWait tr) + 2 * length ns
           \<and> length (filter isSwitchOn tr') =
               length (filter isSwitchOn tr)
               + length (filter (\<lambda>hz. hz \<noteq> NOTE_REST) (map (\<lambda>n. notes ! n) ns))"
proof (induction ns arbitrary: disp tr)
  case Nil
  then show ?case by simp
next
  case (Cons n ns)
  have n: "n < length notes" "n < length durs" "n < length leds" using Cons.prems(1) by simp_all
  have hz: "rd2 (melodyNotes cat) (uint songIdx) (int n) = Some (notes ! n)"
    using rd2_Some [OF nts, of "int n"] n by simp
  have du: "rd2 (durationUnits cat) (uint songIdx) (int n) = Some (durs ! n)"
    using rd2_Some [OF durs, of "int n"] n by simp
  have li: "rd2 (ledIndex cat) (uint songIdx) (int n) = Some (leds ! n)"
    using rd2_Some [OF leds, of "int n"] n by simp
  from playNote_events [OF row trm hz du li Cons.prems(2,3), of totalNotes unitMs tr]
  obtain disp1 es where s:
    "playNote cat songIdx totalNotes unitMs (int n) disp tr =
       Some (disp1, tr @ es @ noteEvents (notes ! n) (durs ! n) unitMs (leds ! n))"
    "list_all isLcd es" "17 \<le> length (top_buf disp1)" "17 \<le> length (bot_buf disp1)"
    by blast
  let ?tr1 = "tr @ es @ noteEvents (notes ! n) (durs ! n) unitMs (leds ! n)"
  have rest: "\<forall>n\<in>set ns. n < length notes \<and> n < length durs \<and> n < length leds"
    using Cons.prems(1) by simp
  from Cons.IH [OF rest s(3,4), of ?tr1]
  obtain disp' tr' where r:
    "playNotes cat songIdx totalNotes unitMs (map int ns) disp1 ?tr1 = Some (disp', tr')"
    "length (filter isWait tr') = length (filter isWait ?tr1) + 2 * length ns"
    "length (filter isSwitchOn tr') =
       length (filter isSwitchOn ?tr1)
       + length (filter (\<lambda>hz. hz \<noteq> NOTE_REST) (map (\<lambda>n. notes ! n) ns))"
    by blast
  have "playNotes cat songIdx totalNotes unitMs (map int (n # ns)) disp tr = Some (disp', tr')"
    using s(1) r(1) by simp
  moreover have "length (filter isWait tr') = length (filter isWait tr) + 2 * length (n # ns)"
    using r(2) s(2) by (simp add: lcd_no_wait noteEvents_waits)
  moreover have "length (filter isSwitchOn tr') =
       length (filter isSwitchOn tr)
       + length (filter (\<lambda>hz. hz \<noteq> NOTE_REST) (map (\<lambda>n. notes ! n) (n # ns)))"
    using r(3) s(2) by (simp add: lcd_no_switch noteEvents_switches)
  ultimately show ?case by blast
qed

lemma playLoop_playNotes:
  "a \<le> nat totalNotes \<Longrightarrow>
   playLoop cat songIdx totalNotes unitMs (int a) disp tr =
     map_option snd (playNotes cat songIdx totalNotes unitMs (map int [a..<nat totalNotes]) disp tr)"
proof (induction "nat totalNotes - a" arbitrary: a disp tr)
  case 0
  then have "\<not> int a < totalNotes" by simp
  moreover have "[a..<nat totalNotes] = []" using 0 by simp
  ultimately show ?case by (subst playLoop.simps) simp
next
  case (Suc d)
  then have lt: "a < nat totalNotes" by simp
  then have lt': "int a < totalNotes" by simp
  have up: "[a..<nat totalNotes] = a # [Suc a..<nat totalNotes]"
    using lt by (rule upt_conv_Cons)
  show ?case
  proof (cases "playNote cat songIdx totalNotes unitMs (int a) disp tr")
    case None
    then show ?thesis using lt' up by (subst playLoop.simps) simp
  next
    case (Some x)
    obtain disp' tr' where x: "x = (disp', tr')" by (cases x)
    have "playLoop cat songIdx totalNotes unitMs (int a) disp tr =
            playLoop cat songIdx totalNotes unitMs (int (Suc a)) disp' tr'"
      using lt' Some x by (subst playLoop.simps) (simp add: add.commute)
    also have "\<dots> = map_option snd
        (playNotes cat songIdx totalNotes unitMs (map int [Suc a..<nat totalNotes]) disp' tr')"
      using Suc.hyps(1) [of "Suc a" disp' tr'] Suc.hyps(2) lt by simp
    finally show ?thesis using up Some x by simp
  qed
qed

lemma take_as_map_nth: "k \<le> length xs \<Longrightarrow> map (\<lambda>n. xs ! n) [0..<k] = take k xs"
proof -
  assume k: "k \<le> length xs"
  have "take k xs = take k (map (\<lambda>n. xs ! n) [0..<length xs])" by (simp add: map_nth)
  also have "\<dots> = map (\<lambda>n. xs ! n) (take k [0..<length xs])" by (rule take_map)
  also have "take k [0..<length xs] = [0..<k]" using k by simp
  finally show ?thesis by simp
qed

lemma pinLevel_lcd: "list_all isLcd es \<Longrightarrow> pinLevel (tr @ es) pin = pinLevel tr pin"
proof (induction es rule: rev_induct)
  case Nil
  then show ?case by simp
next
  case (snoc e es)
  then have "isLcd e" and ih: "pinLevel (tr @ es) pin = pinLevel tr pin" by simp_all
  then show ?case by (cases e) (simp_all add: pinLevel_def)
qed

lemma sounding_lcd: "list_all isLcd es \<Longrightarrow> sounding (tr @ es) = sounding tr"
proof (induction es rule: rev_induct)
  case Nil
  then show ?case by simp
next
  case (snoc e es)
  then have "isLcd e" and ih: "sounding (tr @ es) = sounding tr" by simp_all
  then show ?case by (cases e) (simp_all add: sounding_def)
qed

lemma pinLevel_ledsOff:
  "pin \<in> set LED_PINS \<Longrightarrow> pinLevel (tr @ ledsOff) pin = Some False"
  by (auto simp: pinLevel_def ledsOff_def LED_PINS_def)

lemma sounding_ledsOff: "sounding (tr @ ledsOff) = sounding tr"
  by (simp add: sounding_def ledsOff_def LED_PINS_def)

lemma pinLevel_snoc_other:
  "pinLevel (tr @ [SerialPrintln s]) pin = pinLevel tr pin"
  "pinLevel (tr @ [Wait ms]) pin = pinLevel tr pin"
  "pinLevel (tr @ [NoTone p]) pin = pinLevel tr pin"
  by (simp_all add: pinLevel_def)

lemma sounding_snoc:
  "sounding (tr @ [SerialPrintln s]) = sounding tr"
  "sounding (tr @ [Wait ms]) = sounding tr"
  "sounding (tr @ [NoTone p]) = None"
  by (simp_all add: sounding_def)

lemma announce_events:
  "\<exists>es. announce songIdx tr = tr @ es @ [Wait 900] \<and> list_all isLcd es"
proof -
  from lcdPrintFixed_lcd [of 0 0 "''Now Playing:''" "tr @ [LcdClear]"] obtain e0 where
    e0: "lcdPrintFixed 0 0 ''Now Playing:'' (tr @ [LcdClear]) = (tr @ [LcdClear]) @ e0"
      "list_all isLcd e0" by blast
  let ?t0 = "tr @ LcdClear # e0"
  define t1 where "t1 = (if songIdx = 0 then lcdPrintFixed 0 1 ''Country Roads'' ?t0 else ?t0)"
  have "\<exists>e1. t1 = ?t0 @ e1 \<and> list_all isLcd e1"
    using lcdPrintFixed_lcd [of 0 1 "''Country Roads''" ?t0]
    by (cases "songIdx = 0") (auto simp: t1_def)
  then obtain e1 where e1: "t1 = ?t0 @ e1" "list_all isLcd e1" by blast
  define t2 where "t2 = (if songIdx = 1 then lcdPrintFixed 0 1 ''Baa Baa Sheep'' t1 else t1)"
  have "\<exists>e2. t2 = t1 @ e2 \<and> list_all isLcd e2"
    using lcdPrintFixed_lcd [of 0 1 "''Baa Baa Sheep''" t1]
    by (cases "songIdx = 1") (auto simp: t2_def)
  then obtain e2 where e2: "t2 = t1 @ e2" "list_all isLcd e2" by blast
  define t3 where "t3 = (if songIdx = 2 then lcdPrintFixed 0 1 ''Itsy Spider'' t2 else t2)"
  have "\<exists>e3. t3 = t2 @ e3 \<and> list_all isLcd e3"
    using lcdPrintFixed_lcd [of 0 1 "''Itsy Spider''" t2]
    by (cases "songIdx = 2") (auto simp: t3_def)
  then obtain e3 where e3: "t3 = t2 @ e3" "list_all isLcd e3" by blast
  have "announce songIdx tr = t3 @ [Wait 900]"
    using e0(1) by (simp add: announce_def lcdClear_def busyWait_def Let_def t1_def t2_def t3_def)
  then have "announce songIdx tr = tr @ (LcdClear # e0 @ e1 @ e2 @ e3) @ [Wait 900]"
    using e1(1) e2(1) e3(1) by simp
  moreover have "list_all isLcd (LcdClear # e0 @ e1 @ e2 @ e3)"
    using e0(2) e1(2) e2(2) e3(2) by simp
  ultimately show ?thesis by blast
qed

lemma finish_events:
  "\<exists>es. finish tr =
          tr @ [NoTone BUZZER_PIN] @ ledsOff @ es @ [SerialPrintln ''Song Complete!'', Wait 1200]
        \<and> list_all isLcd es"
proof -
  let ?t0 = "tr @ [NoTone BUZZER_PIN] @ ledsOff"
  from lcdPrintFixed_lcd [of 0 0 "''Song Complete!''" "?t0 @ [LcdClear]"] obtain e0 where
    e0: "lcdPrintFixed 0 0 ''Song Complete!'' (?t0 @ [LcdClear]) = (?t0 @ [LcdClear]) @ e0"
      "list_all isLcd e0" by blast
  from lcdPrintFixed_lcd [of 0 1 "''Choose another!''" "(?t0 @ [LcdClear]) @ e0"] obtain e1 where
    e1: "lcdPrintFixed 0 1 ''Choose another!'' ((?t0 @ [LcdClear]) @ e0) = ((?t0 @ [LcdClear]) @ e0) @ e1"
      "list_all isLcd e1" by blast
  have "finish tr = (((?t0 @ [LcdClear]) @ e0) @ e1) @ [SerialPrintln ''Song Complete!'', Wait 1200]"
    using e0(1) e1(1)
    by (simp add: finish_def Let_def allLEDsOff_eq noTone_def lcdClear_def serialPrintln_def
        busyWait_def)
  then have "finish tr = tr @ [NoTone BUZZER_PIN] @ ledsOff @ (LcdClear # e0 @ e1)
               @ [SerialPrintln ''Song Complete!'', Wait 1200]"
    by simp
  moreover have "list_all isLcd (LcdClear # e0 @ e1)" using e0(2) e1(2) by simp
  ultimately show ?thesis by blast
qed

lemma finish_state:
  "pin \<in> set LED_PINS \<Longrightarrow> pinLevel (finish tr) pin = Some False"
  "sounding (finish tr) = None"
  "length (filter isWait (finish tr)) = length (filter isWait tr) + 1"
  "length (filter isSwitchOn (finish tr)) = length (filter isSwitchOn tr)"
proof -
  from finish_events [of tr] obtain es where
    f: "finish tr = tr @ [NoTone BUZZER_PIN] @ ledsOff @ es
                      @ [SerialPrintln ''Song Complete!'', Wait 1200]"
    and lcd: "list_all isLcd es" by blast
  have f': "finish tr = ((((tr @ [NoTone BUZZER_PIN]) @ ledsOff) @ es)
                      @ [SerialPrintln ''Song Complete!'']) @ [Wait 1200]"
    using f by simp
  show "pinLevel (finish tr) pin = Some False" if "pin \<in> set LED_PINS"
    unfolding f' using that lcd
    by (simp only: pinLevel_snoc_other pinLevel_lcd pinLevel_ledsOff)
  show "sounding (finish tr) = None"
    unfolding f' using lcd
    by (simp only: sounding_snoc sounding_lcd sounding_ledsOff)
  show "length (filter isWait (finish tr)) = length (filter isWait tr) + 1"
    unfolding f using lcd by (simp add: lcd_no_wait ledsOff_no_wait)
  show "length (filter isSwitchOn (finish tr)) = length (filter isSwitchOn tr)"
    unfolding f using lcd by (simp add: lcd_no_switch ledsOff_no_switch)
qed

lemma setup_counts:
  "length (filter isWait (noTone BUZZER_PIN (allLEDsOff (lcdClear (announce songIdx tr)))))
     = length (filter isWait tr) + 1"
  "length (filter isSwitchOn (noTone BUZZER_PIN (allLEDsOff (lcdClear (announce songIdx tr)))))
     = length (filter isSwitchOn tr)"
proof -
  from announce_events [of songIdx tr] obtain es where
    a: "announce songIdx tr = tr @ es @ [Wait 900]" and lcd: "list_all isLcd es" by blast
  show "length (filter isWait (noTone BUZZER_PIN (allLEDsOff (lcdClear (announce songIdx tr)))))
     = length (filter isWait tr) + 1"
    using lcd by (simp add: a noTone_def allLEDsOff_eq lcdClear_def lcd_no_wait ledsOff_no_wait)
  show "length (filter isSwitchOn (noTone BUZZER_PIN (allLEDsOff (lcdClear (announce songIdx tr)))))
     = length (filter isSwitchOn tr)"
    using lcd by (simp add: a noTone_def allLEDsOff_eq lcdClear_def lcd_no_switch ledsOff_no_switch)
qed

text \<open>Reads of the catalog with the three-note song, used for concrete instances.\<close>

lemma three_row: "rd (lineNoteCounts threeNoteCatalog) (uint (0::byte)) = Some (zeroFill (unat MAX_LINES) [1, 1, 1, 0])"
  by (simp add: threeNoteCatalog_def karaoke_def lineNoteCounts_data_def rd_def)

lemma three_row_terminated: "terminated (zeroFill (unat MAX_LINES) [1, 1, 1, 0 :: byte])"
  by (simp add: terminated_def zeroFill_def MAX_LINES_def)

lemma three_notes:
  "rd (melodyNotes threeNoteCatalog) (uint (0::byte)) = Some (zeroFill (nat MAX_NOTES) [NOTE_C4, NOTE_E4, NOTE_G4])"
  "rd (durationUnits threeNoteCatalog) (uint (0::byte)) = Some (zeroFill (nat MAX_NOTES) [2, 2, 4])"
  "rd (ledIndex threeNoteCatalog) (uint (0::byte)) = Some (zeroFill (nat MAX_NOTES) [0, 7, 2])"
  by (simp_all add: threeNoteCatalog_def karaoke_def melodyNotes_data_def durationUnits_data_def
      ledIndex_data_def rd_def)

lemma three_slot1:
  "rd2 (melodyNotes threeNoteCatalog) (uint (0::byte)) 1 = Some NOTE_E4"
  "rd2 (durationUnits threeNoteCatalog) (uint (0::byte)) 1 = Some 2"
  "rd2 (ledIndex threeNoteCatalog) (uint (0::byte)) 1 = Some 7"
  unfolding rd2_def three_notes by (simp_all add: rd_def zeroFill_def MAX_NOTES_def)

section \<open>Rejection of an unplayable song\<close>

text \<open>
  Claim C6. For every song of the catalog whose length is not positive or whose tempo is
  not positive, \<open>playSong\<close> returns at once and issues no call to any sink: the trace of
  display, light and tone calls it returns is the trace it was given.
\<close>

theorem playSong_rejects:
  assumes "rd (melodyLen cat) (uint songIdx) = Some len"
    and "rd (tempoBPM cat) (uint songIdx) = Some bpm"
    and "uint len \<le> 0 \<or> bpm \<le> 0"
  shows "playSong cat songIdx tr = Some tr"
  using assms by (auto simp: playSong_def)

theorem playSong_rejects_witness:
  "rd (melodyLen zeroTempoCatalog) (uint (1::byte)) = Some 42
   \<and> rd (tempoBPM zeroTempoCatalog) (uint (1::byte)) = Some 0
   \<and> (uint (42::byte) \<le> 0 \<or> (0::int) \<le> 0)
   \<and> playSong zeroTempoCatalog 1 [] = Some []"
proof -
  have h1: "rd (melodyLen zeroTempoCatalog) (uint (1::byte)) = Some 42"
    by (simp add: zeroTempoCatalog_def karaoke_def melodyLen_data_def rd_def)
  have h2: "rd (tempoBPM zeroTempoCatalog) (uint (1::byte)) = Some 0"
    by (simp add: zeroTempoCatalog_def karaoke_def rd_def)
  have h3: "uint (42::byte) \<le> 0 \<or> (0::int) \<le> 0" by simp
  note c = playSong_rejects [OF h1 h2 h3, of "[]"]
  show ?thesis by (intro conjI h1 h2 h3 c)
qed

section \<open>Clamping of the light index\<close>

text \<open>
  Claim C7. For every note slot the loop body processes, with light-track entry \<open>v\<close>:
  the body returns, every \<open>digitalWrite\<close> it issues addresses \<open>LED_PINS[i]\<close> for an
  index \<open>i\<close> in 0..4, and a write that switches a light on addresses
  \<open>LED_PINS[min v 4]\<close>, the clamped index; that write is issued whenever the slot has a
  pitch, so for \<open>v \<ge> 5\<close> it is indicator 4 that is lit.
\<close>

theorem playNote_clamps_light:
  assumes "rd (lineNoteCounts cat) (uint songIdx) = Some row" and "terminated row"
    and "rd2 (melodyNotes cat) (uint songIdx) n = Some noteHz"
    and "rd2 (durationUnits cat) (uint songIdx) n = Some durU"
    and "rd2 (ledIndex cat) (uint songIdx) n = Some v"
    and "17 \<le> length (top_buf disp)" and "17 \<le> length (bot_buf disp)"
  shows "\<exists>disp' ext.
           playNote cat songIdx totalNotes unitMs n disp tr = Some (disp', tr @ ext)
           \<and> (\<forall>pin level. DigitalWrite pin level \<in> set ext \<longrightarrow>
                 (\<exists>i\<le>4. pin = LED_PINS ! i)
                 \<and> (level \<longrightarrow> pin = LED_PINS ! min (unat v) 4))
           \<and> (noteHz \<noteq> NOTE_REST \<longrightarrow>
                 DigitalWrite (LED_PINS ! min (unat v) 4) True \<in> set ext)
           \<and> (noteHz \<noteq> NOTE_REST \<and> 5 \<le> v \<longrightarrow>
                 DigitalWrite (LED_PINS ! 4) True \<in> set ext)"
proof -
  from playNote_events [OF assms, of totalNotes unitMs tr]
  obtain disp' es where s:
    "playNote cat songIdx totalNotes unitMs n disp tr =
       Some (disp', tr @ es @ noteEvents noteHz durU unitMs v)"
    "list_all isLcd es"
    by blast
  let ?ext = "es @ noteEvents noteHz durU unitMs v"
  let ?on = "DigitalWrite (LED_PINS ! min (unat v) 4) True"
  obtain total on off where tm: "noteTiming durU unitMs = (total, on, off)"
    by (cases "noteTiming durU unitMs") auto
  have ne: "set (noteEvents noteHz durU unitMs v) =
              set ledsOff \<union> (if noteHz \<noteq> NOTE_REST then {?on, Tone BUZZER_PIN noteHz}
                               else {NoTone BUZZER_PIN})
              \<union> {Wait on, NoTone BUZZER_PIN, Wait off}"
    by (auto simp: noteEvents_def tm clampLed_unat)
  have no_lcd: "DigitalWrite pin level \<notin> set es" for pin level
  proof
    assume "DigitalWrite pin level \<in> set es"
    with s(2) have "isLcd (DigitalWrite pin level)" by (auto simp: list_all_iff)
    then show False by simp
  qed
  have pins: "\<exists>i\<le>4. pin = LED_PINS ! i" if "pin \<in> set LED_PINS" for pin
  proof -
    from that obtain i where "i < length LED_PINS" "LED_PINS ! i = pin"
      by (auto simp: in_set_conv_nth)
    moreover have "length LED_PINS = 5" by (simp add: LED_PINS_def)
    ultimately have "i \<le> 4" "pin = LED_PINS ! i" by simp_all
    then show ?thesis by blast
  qed
  have clamp_in: "LED_PINS ! min (unat v) 4 \<in> set LED_PINS"
    by (intro nth_mem) (simp add: LED_PINS_def)
  have writes: "(\<exists>i\<le>4. pin = LED_PINS ! i) \<and> (level \<longrightarrow> pin = LED_PINS ! min (unat v) 4)"
    if w: "DigitalWrite pin level \<in> set ?ext" for pin level
  proof -
    from w no_lcd have "DigitalWrite pin level \<in> set (noteEvents noteHz durU unitMs v)" by auto
    then consider (off) "DigitalWrite pin level \<in> set ledsOff"
      | (on) "noteHz \<noteq> NOTE_REST" "DigitalWrite pin level = ?on"
      unfolding ne by (auto split: if_splits)
    then show ?thesis
    proof cases
      case off
      then have "pin \<in> set LED_PINS" "\<not> level" by (auto simp: ledsOff_def)
      then show ?thesis using pins by simp
    next
      case on
      then have "pin = LED_PINS ! min (unat v) 4" by simp
      then show ?thesis using pins [OF clamp_in] by simp
    qed
  qed
  have lit: "?on \<in> set ?ext" if "noteHz \<noteq> NOTE_REST"
    using that unfolding set_append ne by simp
  have lit4: "DigitalWrite (LED_PINS ! 4) True \<in> set ?ext" if "noteHz \<noteq> NOTE_REST \<and> 5 \<le> v"
  proof -
    from that have "5 \<le> unat v" by (simp add: word_le_nat_alt)
    then have "min (unat v) 4 = 4" by simp
    with lit that show ?thesis by simp
  qed
  show ?thesis
    using s(1) writes lit lit4 by (intro exI [of _ disp'] exI [of _ ?ext]) blast
qed

theorem playNote_clamps_light_witness:
  "rd (lineNoteCounts threeNoteCatalog) (uint (0::byte)) = Some (zeroFill (unat MAX_LINES) [1, 1, 1, 0])
   \<and> terminated (zeroFill (unat MAX_LINES) [1, 1, 1, 0 :: byte])
   \<and> rd2 (melodyNotes threeNoteCatalog) (uint (0::byte)) 1 = Some NOTE_E4
   \<and> rd2 (durationUnits threeNoteCatalog) (uint (0::byte)) 1 = Some 2
   \<and> rd2 (ledIndex threeNoteCatalog) (uint (0::byte)) 1 = Some 7
   \<and> 17 \<le> length (top_buf \<lparr> lastLineDisplayed = - 999, top_buf = replicate 17 NUL, bot_buf = replicate 17 NUL \<rparr>)
   \<and> 17 \<le> length (bot_buf \<lparr> lastLineDisplayed = - 999, top_buf = replicate 17 NUL, bot_buf = replicate 17 NUL \<rparr>)
   \<and> LED_PINS ! min (unat (7::byte)) 4 = 8
   \<and> (\<exists>disp' ext.
           playNote threeNoteCatalog 0 3 312 1
             \<lparr> lastLineDisplayed = - 999, top_buf = replicate 17 NUL, bot_buf = replicate 17 NUL \<rparr> []
             = Some (disp', [] @ ext)
           \<and> (\<forall>pin level. DigitalWrite pin level \<in> set ext \<longrightarrow>
                 (\<exists>i\<le>4. pin = LED_PINS ! i)
                 \<and> (level \<longrightarrow> pin = LED_PINS ! min (unat (7::byte)) 4))
           \<and> (NOTE_E4 \<noteq> NOTE_REST \<longrightarrow>
                 DigitalWrite (LED_PINS ! min (unat (7::byte)) 4) True \<in> set ext)
           \<and> (NOTE_E4 \<noteq> NOTE_REST \<and> 5 \<le> (7::byte) \<longrightarrow>
                 DigitalWrite (LED_PINS ! 4) True \<in> set ext))"
proof -
  let ?disp = "\<lparr> lastLineDisplayed = - 999, top_buf = replicate 17 NUL, bot_buf = replicate 17 NUL \<rparr>"
  have t: "17 \<le> length (top_buf ?disp)" and b: "17 \<le> length (bot_buf ?disp)" by simp_all
  have p: "LED_PINS ! min (unat (7::byte)) 4 = 8" by (simp add: LED_PINS_def)
  note c = playNote_clamps_light [OF three_row three_row_terminated three_slot1 t b,
      of 3 312 "[]"]
  show ?thesis by (intro conjI three_row three_row_terminated three_slot1 t b p c)
qed

section \<open>What the display calls show\<close>

lemma cstring_Cons: "cstring (c # cs) = (if c \<noteq> NUL then c # cstring cs else [])"
  by (simp add: cstring_def)

lemma printChars_closed:
  "printChars i s tr =
     (i + length (take (16 - i) (cstring s)), tr @ map LcdPrint (take (16 - i) (cstring s)))"
proof (induction s arbitrary: i tr)
  case Nil
  then show ?case by (simp add: cstring_def)
next
  case (Cons c cs)
  show ?case
  proof (cases "i < 16 \<and> c \<noteq> NUL")
    case True
    then have j: "16 - i = Suc (15 - i)" by linarith
    show ?thesis using True by (simp add: Cons.IH cstring_Cons j)
  next
    case False
    then show ?thesis by (auto simp: cstring_Cons)
  qed
qed

lemma padSpaces_closed: "padSpaces i tr = tr @ replicate (16 - i) (LcdPrint (CHR '' ''))"
proof (induction i tr rule: padSpaces.induct)
  case (1 i tr)
  show ?case
  proof (cases "i < 16")
    case True
    then have j: "16 - i = Suc (15 - i)" by linarith
    have "padSpaces i tr = padSpaces (Suc i) (tr @ [LcdPrint (CHR '' '')])"
      using True by (subst padSpaces.simps) simp
    also have "\<dots> = (tr @ [LcdPrint (CHR '' '')]) @ replicate (16 - Suc i) (LcdPrint (CHR '' ''))"
      using True by (rule 1)
    also have "\<dots> = tr @ replicate (16 - i) (LcdPrint (CHR '' ''))"
      by (simp add: j del: padSpaces.simps)
    finally show ?thesis .
  next
    case False
    then show ?thesis by (subst padSpaces.simps) simp
  qed
qed

lemma lcdPrintFixed_closed:
  "lcdPrintFixed 0 row s tr = tr @ shownRow row (cstring s)"
proof -
  let ?t = "take 16 (cstring s)"
  let ?tr = "tr @ [LcdSetCursor 0 row]"
  have "printChars 0 s ?tr = (0 + length (take (16 - 0) (cstring s)),
          ?tr @ map LcdPrint (take (16 - 0) (cstring s)))"
    by (rule printChars_closed)
  then have p: "printChars 0 s ?tr = (length ?t, ?tr @ map LcdPrint ?t)"
    by (simp only: add_0 diff_zero)
  show ?thesis
    unfolding lcdPrintFixed_def p shownRow_def
    by (simp only: prod.case padSpaces_closed append_assoc append_Cons append_Nil)
qed

lemma shownRow_take16: "shownRow row (take 16 s) = shownRow row s"
  by (simp add: shownRow_def)

lemma length_shownRow: "length (shownRow row s) = 17"
  by (simp add: shownRow_def)

lemma isLcd_shownRow: "list_all isLcd (shownRow row s)"
  by (auto simp: shownRow_def list_all_iff)

lemma length_shownLines: "length (shownLines cat songIdx l) = 34"
  by (simp add: shownLines_def length_shownRow)

lemma isLcd_shownLines: "list_all isLcd (shownLines cat songIdx l)"
  by (simp add: shownLines_def isLcd_shownRow)

lemma showTwoLines_closed:
  "showTwoLines l1 l2 tr = tr @ shownRow 0 (cstring l1) @ shownRow 1 (cstring l2)"
  by (simp add: showTwoLines_def lcdPrintFixed_closed)

lemma getLyricLine_text:
  assumes os: "outSize \<noteq> 0" and len: "unat outSize \<le> length out"
  shows "\<exists>ok out'.
           getLyricLine cat songIdx lineIndex out outSize = Some (ok, out')
           \<and> length out' = length out
           \<and> cstring (if \<not> ok then out'[0 := NUL] else out') =
               take (unat outSize - 1) (lineText cat songIdx (unat lineIndex))"
proof -
  from getLyricLine_buffer [OF os len, of cat songIdx lineIndex]
  obtain ok out' where r:
    "getLyricLine cat songIdx lineIndex out outSize = Some (ok, out')"
    "ok \<longleftrightarrow> lineExists cat songIdx lineIndex"
    "length out' = length out"
    "ok \<longrightarrow> (\<exists>lyr. getLyricsPtr cat songIdx = Some lyr
        \<and> cstring out' = take (unat outSize - 1) (lyricLines lyr ! unat lineIndex))"
    by blast
  have os': "0 < unat outSize" using os by (simp add: unat_gt_0)
  then have l0: "0 < length out'" using len r(3) by linarith
  have "cstring (if \<not> ok then out'[0 := NUL] else out') =
          take (unat outSize - 1) (lineText cat songIdx (unat lineIndex))"
  proof (cases ok)
    case True
    with r(4) obtain lyr where lyr: "getLyricsPtr cat songIdx = Some lyr"
      "cstring out' = take (unat outSize - 1) (lyricLines lyr ! unat lineIndex)" by blast
    have "unat lineIndex < length (lyricLines lyr)"
      using True r(2) lyr(1) by (simp add: lineExists_def)
    then show ?thesis using True lyr by (simp add: lineText_def)
  next
    case False
    then have "lineText cat songIdx (unat lineIndex) = []"
      using r(2) by (auto simp: lineExists_def lineText_def split: option.splits)
    then show ?thesis using False l0 by (simp add: cstring_update0)
  qed
  with r(1,3) show ?thesis by blast
qed

lemma unat_line_byte:
  "a < 256 \<Longrightarrow> unat (word_of_int (int a) :: byte) = a"
  by (simp add: unat_of_nat)

lemma refreshLyrics_exact:
  assumes t: "17 \<le> length (top_buf disp)" and b: "17 \<le> length (bot_buf disp)"
    and a: "a < unat MAX_LINES" and change: "int a \<noteq> lastLineDisplayed disp"
  shows "\<exists>disp'. refreshLyrics cat songIdx (int a) disp tr =
             Some (disp', tr @ shownLines cat songIdx a)
           \<and> lastLineDisplayed disp' = int a
           \<and> 17 \<le> length (top_buf disp') \<and> 17 \<le> length (bot_buf disp')"
proof -
  have os: "(17::byte) \<noteq> 0" by simp
  have lt: "unat (17::byte) \<le> length (top_buf disp)" using t by simp
  have lb: "unat (17::byte) \<le> length (bot_buf disp)" using b by simp
  have a30: "a < 30" using a by (simp add: MAX_LINES_def)
  have u1: "unat (word_of_int (int a) :: byte) = a" using a30 by (intro unat_line_byte) simp
  have "unat (word_of_int (int (Suc a)) :: byte) = Suc a"
    using a30 by (intro unat_line_byte) simp
  moreover have "int (Suc a) = int a + 1" by simp
  ultimately have u2: "unat (word_of_int (int a + 1) :: byte) = Suc a"
    by (simp only:)
  from getLyricLine_text [OF os lt, of cat songIdx "word_of_int (int a)"]
  obtain ok1 top1 where g1:
    "getLyricLine cat songIdx (word_of_int (int a)) (top_buf disp) 17 = Some (ok1, top1)"
    "length top1 = length (top_buf disp)"
    "cstring (if \<not> ok1 then top1[0 := NUL] else top1) = take 16 (lineText cat songIdx a)"
    unfolding u1 by auto
  from getLyricLine_text [OF os lb, of cat songIdx "word_of_int (int a + 1)"]
  obtain ok2 bot1 where g2:
    "getLyricLine cat songIdx (word_of_int (int a + 1)) (bot_buf disp) 17 = Some (ok2, bot1)"
    "length bot1 = length (bot_buf disp)"
    "cstring (if \<not> ok2 then bot1[0 := NUL] else bot1) = take 16 (lineText cat songIdx (Suc a))"
    unfolding u2 by auto
  define top2 where "top2 = (if \<not> ok1 then top1[0 := NUL] else top1)"
  define bot2 where "bot2 = (if \<not> ok2 then bot1[0 := NUL] else bot1)"
  have "0 < length top1" using g1(2) t by linarith
  moreover have "0 < length bot1" using g2(2) b by linarith
  ultimately have "top1 \<noteq> []" "bot1 \<noteq> []" by simp_all
  then have p1: "(if \<not> ok1 then poke top1 0 NUL else Some top1) = Some top2"
    and p2: "(if \<not> ok2 then poke bot1 0 NUL else Some bot1) = Some bot2"
    by (simp_all add: top2_def bot2_def poke_def)
  have "showTwoLines top2 bot2 tr = tr @ shownRow 0 (cstring top2) @ shownRow 1 (cstring bot2)"
    by (rule showTwoLines_closed)
  also have "\<dots> = tr @ shownLines cat songIdx a"
    using g1(3) g2(3) by (simp add: top2_def bot2_def shownLines_def shownRow_take16)
  finally have sh: "showTwoLines top2 bot2 tr = tr @ shownLines cat songIdx a" .
  have "refreshLyrics cat songIdx (int a) disp tr =
          Some (\<lparr> lastLineDisplayed = int a, top_buf = top2, bot_buf = bot2 \<rparr>,
                tr @ shownLines cat songIdx a)"
    using change g1(1) g2(1) p1 p2 sh by (simp add: refreshLyrics_def)
  moreover have "17 \<le> length top2" "17 \<le> length bot2"
    using g1(2) g2(2) t b by (simp_all add: top2_def bot2_def)
  ultimately show ?thesis
    by (intro exI [of _ "\<lparr> lastLineDisplayed = int a, top_buf = top2, bot_buf = bot2 \<rparr>"]) simp
qed

lemma playNote_step:
  assumes row: "rd (lineNoteCounts cat) (uint songIdx) = Some row" and trm: "terminated row"
    and hz: "rd2 (melodyNotes cat) (uint songIdx) n = Some noteHz"
    and du: "rd2 (durationUnits cat) (uint songIdx) n = Some durU"
    and li: "rd2 (ledIndex cat) (uint songIdx) n = Some v"
    and t: "17 \<le> length (top_buf disp)" and b: "17 \<le> length (bot_buf disp)"
  shows "\<exists>a disp'. firstStop row n a
           \<and> playNote cat songIdx totalNotes unitMs n disp tr =
               Some (disp',
                     tr @ (if int a = lastLineDisplayed disp then [] else shownLines cat songIdx a)
                        @ noteEvents noteHz durU unitMs v)
           \<and> lastLineDisplayed disp' = int a
           \<and> 17 \<le> length (top_buf disp') \<and> 17 \<le> length (bot_buf disp')"
proof -
  from getLineInfo_terminated [OF row trm, of n totalNotes]
  obtain a s c where info:
    "getLineInfoFromNotesPlayed cat songIdx n totalNotes = Some (int a, s, c)"
    "a < unat MAX_LINES" "firstStop row n a" by blast
  let ?shown = "if int a = lastLineDisplayed disp then [] else shownLines cat songIdx a"
  have "\<exists>disp'. refreshLyrics cat songIdx (int a) disp tr = Some (disp', tr @ ?shown)
           \<and> lastLineDisplayed disp' = int a
           \<and> 17 \<le> length (top_buf disp') \<and> 17 \<le> length (bot_buf disp')"
  proof (cases "int a = lastLineDisplayed disp")
    case True
    then have "refreshLyrics cat songIdx (int a) disp tr = Some (disp, tr @ ?shown)"
      by (simp add: refreshLyrics_def)
    then show ?thesis using True t b by auto
  next
    case False
    then show ?thesis using refreshLyrics_exact [OF t b info(2) False, of cat songIdx tr]
      by simp
  qed
  then obtain disp' where r:
    "refreshLyrics cat songIdx (int a) disp tr = Some (disp', tr @ ?shown)"
    "lastLineDisplayed disp' = int a"
    "17 \<le> length (top_buf disp')" "17 \<le> length (bot_buf disp')" by blast
  obtain total on off where tm: "noteTiming durU unitMs = (total, on, off)"
    by (cases "noteTiming durU unitMs") auto
  have "playNote cat songIdx totalNotes unitMs n disp tr =
          Some (disp', tr @ ?shown @ noteEvents noteHz durU unitMs v)"
    unfolding playNote_def
    using info(1) r(1) hz du li tm
    by (simp add: startNote_events allLEDsOff_eq noteEvents_def busyWait_def noTone_def)
  with info(3) r(2-4) show ?thesis by blast
qed

lemma noteEvents_no_lcd: "filter isLcd (noteEvents noteHz durU unitMs v) = []"
  by (cases "noteTiming durU unitMs") (simp add: noteEvents_def ledsOff_def LED_PINS_def)

lemma filter_all_lcd: "list_all isLcd es \<Longrightarrow> filter isLcd es = es"
  by (induction es) simp_all

lemma displays_after_refresh:
  "displays cat songIdx (tr @ shownLines cat songIdx l @ noteEvents noteHz durU unitMs v) l"
proof -
  let ?s = "shownLines cat songIdx l"
  have "filter isLcd (tr @ ?s @ noteEvents noteHz durU unitMs v) = filter isLcd tr @ ?s"
    by (simp add: noteEvents_no_lcd filter_all_lcd isLcd_shownLines)
  then show ?thesis by (simp add: displays_def length_shownLines)
qed

lemma displays_kept:
  "displays cat songIdx tr l \<Longrightarrow> displays cat songIdx (tr @ noteEvents noteHz durU unitMs v) l"
  by (simp add: displays_def noteEvents_no_lcd)

lemma pinLevel_on:
  "pinLevel (tr @ [DigitalWrite q True, Tone bp hz]) pin =
     (if q = pin then Some True else pinLevel tr pin)"
  by (simp add: pinLevel_def)

lemma sounding_on: "sounding (tr @ [DigitalWrite q lv, Tone bp hz]) = Some hz"
  by (simp add: sounding_def)

lemma pinLevel_release:
  "pin \<in> set LED_PINS \<Longrightarrow>
   pinLevel (tr @ Wait on # NoTone bp # ledsOff @ [Wait off]) pin = Some False"
proof -
  assume p: "pin \<in> set LED_PINS"
  have "tr @ Wait on # NoTone bp # ledsOff @ [Wait off] =
          (((tr @ [Wait on]) @ [NoTone bp]) @ ledsOff) @ [Wait off]" by simp
  then show ?thesis using p
    by (simp only: pinLevel_snoc_other pinLevel_ledsOff)
qed

lemma sounding_release:
  "sounding (tr @ Wait on # NoTone bp # ledsOff @ [Wait off]) = None"
proof -
  have "tr @ Wait on # NoTone bp # ledsOff @ [Wait off] =
          (((tr @ [Wait on]) @ [NoTone bp]) @ ledsOff) @ [Wait off]" by simp
  then show ?thesis by (simp only: sounding_snoc sounding_ledsOff)
qed

text \<open>
  The phases of one note: the trace up to the first busy-wait, and the rest.
\<close>

lemma note_phases:
  fixes noteHz :: int and v :: byte
  assumes tm: "noteTiming durU unitMs = (tot, on, off)"
  defines "start \<equiv> (if noteHz \<noteq> NOTE_REST
                     then [DigitalWrite (LED_PINS ! min (unat v) 4) True, Tone BUZZER_PIN noteHz]
                     else [NoTone BUZZER_PIN])"
  shows "tr @ shown @ noteEvents noteHz durU unitMs v =
           tr @ (shown @ ledsOff @ start) @ Wait on # (NoTone BUZZER_PIN # ledsOff @ [Wait off])"
    and "list_all isLcd shown \<Longrightarrow> filter isWait (shown @ ledsOff @ start) = []"
    and "filter isWait (NoTone BUZZER_PIN # ledsOff @ [Wait off]) = [Wait off]"
    and "list_all isLcd shown \<Longrightarrow>
         length (filter isSwitchOn
           ((shown @ ledsOff @ start) @ Wait on # (NoTone BUZZER_PIN # ledsOff @ [Wait off])))
           = (if noteHz \<noteq> NOTE_REST then 1 else 0)"
    and "pin \<in> set LED_PINS \<Longrightarrow> noteHz \<noteq> NOTE_REST \<Longrightarrow>
         pinLevel (tr @ shown @ ledsOff @ start) pin = Some (pin = LED_PINS ! min (unat v) 4)"
    and "noteHz \<noteq> NOTE_REST \<Longrightarrow> sounding (tr @ shown @ ledsOff @ start) = Some noteHz"
    and "pin \<in> set LED_PINS \<Longrightarrow> noteHz = NOTE_REST \<Longrightarrow>
         pinLevel (tr @ shown @ ledsOff @ start) pin = Some False"
    and "noteHz = NOTE_REST \<Longrightarrow> sounding (tr @ shown @ ledsOff @ start) = None"
    and "pin \<in> set LED_PINS \<Longrightarrow>
         pinLevel (tr @ shown @ noteEvents noteHz durU unitMs v) pin = Some False"
    and "sounding (tr @ shown @ noteEvents noteHz durU unitMs v) = None"
proof -
  show eq: "tr @ shown @ noteEvents noteHz durU unitMs v =
           tr @ (shown @ ledsOff @ start) @ Wait on # (NoTone BUZZER_PIN # ledsOff @ [Wait off])"
    by (simp add: noteEvents_def tm start_def clampLed_unat)
  show "filter isWait (shown @ ledsOff @ start) = []" if "list_all isLcd shown"
    using that by (simp add: lcd_no_wait ledsOff_no_wait start_def)
  show "filter isWait (NoTone BUZZER_PIN # ledsOff @ [Wait off]) = [Wait off]"
    by (simp add: ledsOff_no_wait)
  show "length (filter isSwitchOn
           ((shown @ ledsOff @ start) @ Wait on # (NoTone BUZZER_PIN # ledsOff @ [Wait off])))
           = (if noteHz \<noteq> NOTE_REST then 1 else 0)" if "list_all isLcd shown"
    using that by (simp add: lcd_no_switch ledsOff_no_switch start_def)
  have off1: "pinLevel ((tr @ shown) @ ledsOff) pin = Some False" if "pin \<in> set LED_PINS"
    using that by (rule pinLevel_ledsOff)
  show "pinLevel (tr @ shown @ ledsOff @ start) pin = Some (pin = LED_PINS ! min (unat v) 4)"
    if "pin \<in> set LED_PINS" "noteHz \<noteq> NOTE_REST"
  proof -
    have "tr @ shown @ ledsOff @ start =
            ((tr @ shown) @ ledsOff)
              @ [DigitalWrite (LED_PINS ! min (unat v) 4) True, Tone BUZZER_PIN noteHz]"
      using that(2) by (simp add: start_def)
    then show ?thesis using off1 [OF that(1)] by (auto simp only: pinLevel_on split: if_splits)
  qed
  show "sounding (tr @ shown @ ledsOff @ start) = Some noteHz" if "noteHz \<noteq> NOTE_REST"
  proof -
    have "tr @ shown @ ledsOff @ start =
            ((tr @ shown) @ ledsOff)
              @ [DigitalWrite (LED_PINS ! min (unat v) 4) True, Tone BUZZER_PIN noteHz]"
      using that by (simp add: start_def)
    then show ?thesis by (simp only: sounding_on)
  qed
  show "pinLevel (tr @ shown @ ledsOff @ start) pin = Some False"
    if "pin \<in> set LED_PINS" "noteHz = NOTE_REST"
  proof -
    have "tr @ shown @ ledsOff @ start = ((tr @ shown) @ ledsOff) @ [NoTone BUZZER_PIN]"
      using that(2) by (simp add: start_def)
    then show ?thesis using off1 [OF that(1)] by (simp only: pinLevel_snoc_other)
  qed
  show "sounding (tr @ shown @ ledsOff @ start) = None" if "noteHz = NOTE_REST"
  proof -
    have "tr @ shown @ ledsOff @ start = ((tr @ shown) @ ledsOff) @ [NoTone BUZZER_PIN]"
      using that by (simp add: start_def)
    then show ?thesis by (simp only: sounding_snoc)
  qed
  have eq': "tr @ shown @ noteEvents noteHz durU unitMs v =
           (tr @ shown @ ledsOff @ start) @ Wait on # NoTone BUZZER_PIN # ledsOff @ [Wait off]"
    using eq by simp
  show "pinLevel (tr @ shown @ noteEvents noteHz durU unitMs v) pin = Some False"
    if "pin \<in> set LED_PINS"
    unfolding eq' using that by (rule pinLevel_release)
  show "sounding (tr @ shown @ noteEvents noteHz durU unitMs v) = None"
    unfolding eq' by (rule sounding_release)
qed

lemma playNotes_snoc:
  "playNotes cat songIdx totalNotes unitMs (ns @ [n]) disp tr =
     (case playNotes cat songIdx totalNotes unitMs ns disp tr of
        None \<Rightarrow> None
      | Some (d, x) \<Rightarrow> playNote cat songIdx totalNotes unitMs n d x)"
proof (induction ns arbitrary: disp tr)
  case Nil
  then show ?case by (simp split: option.splits)
next
  case (Cons m ns)
  then show ?case by (simp split: option.splits prod.splits)
qed

lemma playNote_cycle:
  assumes row: "rd (lineNoteCounts cat) (uint songIdx) = Some row" and trm: "terminated row"
    and hz: "rd2 (melodyNotes cat) (uint songIdx) n = Some noteHz"
    and du: "rd2 (durationUnits cat) (uint songIdx) n = Some durU"
    and li: "rd2 (ledIndex cat) (uint songIdx) n = Some v"
    and t: "17 \<le> length (top_buf disp)" and b: "17 \<le> length (bot_buf disp)"
    and tm: "noteTiming durU unitMs = (tot, on, off)"
  shows "\<exists>disp' tr' mid post.
           playNote cat songIdx totalNotes unitMs n disp tr = Some (disp', tr')
           \<and> tr' = tr @ mid @ Wait on # post
           \<and> filter isWait mid = [] \<and> filter isWait post = [Wait off]
           \<and> length (filter isSwitchOn (mid @ Wait on # post)) =
               (if noteHz \<noteq> NOTE_REST then 1 else 0)
           \<and> (noteHz \<noteq> NOTE_REST \<longrightarrow>
                 (\<forall>pin\<in>set LED_PINS.
                     pinLevel (tr @ mid) pin = Some (pin = LED_PINS ! min (unat v) 4))
                 \<and> sounding (tr @ mid) = Some noteHz)
           \<and> (noteHz = NOTE_REST \<longrightarrow>
                 (\<forall>pin\<in>set LED_PINS. pinLevel (tr @ mid) pin = Some False)
                 \<and> sounding (tr @ mid) = None)
           \<and> (\<forall>pin\<in>set LED_PINS. pinLevel tr' pin = Some False)
           \<and> sounding tr' = None"
proof -
  from playNote_step [OF row trm hz du li t b, of totalNotes unitMs tr]
  obtain a disp' where s:
    "playNote cat songIdx totalNotes unitMs n disp tr =
       Some (disp',
             tr @ (if int a = lastLineDisplayed disp then [] else shownLines cat songIdx a)
                @ noteEvents noteHz durU unitMs v)"
    by blast
  define shown where
    "shown = (if int a = lastLineDisplayed disp then [] else shownLines cat songIdx a)"
  define start where
    "start = (if noteHz \<noteq> NOTE_REST
              then [DigitalWrite (LED_PINS ! min (unat v) 4) True, Tone BUZZER_PIN noteHz]
              else [NoTone BUZZER_PIN])"
  define mid where "mid = shown @ ledsOff @ start"
  define post where "post = NoTone BUZZER_PIN # ledsOff @ [Wait off]"
  define tr' where "tr' = tr @ shown @ noteEvents noteHz durU unitMs v"
  have lcd: "list_all isLcd shown" by (simp add: shown_def isLcd_shownLines)
  have p: "playNote cat songIdx totalNotes unitMs n disp tr = Some (disp', tr')"
    using s by (simp add: shown_def tr'_def)
  have e: "tr' = tr @ mid @ Wait on # post"
    unfolding tr'_def mid_def post_def start_def by (rule note_phases(1) [OF tm])
  have w1: "filter isWait mid = []"
    unfolding mid_def start_def using lcd by (rule note_phases(2) [OF tm])
  have w2: "filter isWait post = [Wait off]"
    unfolding post_def by (rule note_phases(3) [OF tm])
  have sw: "length (filter isSwitchOn (mid @ Wait on # post)) =
      (if noteHz \<noteq> NOTE_REST then 1 else 0)"
    unfolding mid_def post_def start_def using lcd by (rule note_phases(4) [OF tm])
  have m: "tr @ mid = tr @ shown @ ledsOff @ start" by (simp add: mid_def)
  have on1: "\<forall>pin\<in>set LED_PINS. pinLevel (tr @ mid) pin = Some (pin = LED_PINS ! min (unat v) 4)"
    if "noteHz \<noteq> NOTE_REST"
    unfolding m start_def using that note_phases(5) [OF tm] by blast
  have on2: "sounding (tr @ mid) = Some noteHz" if "noteHz \<noteq> NOTE_REST"
    unfolding m start_def using that by (rule note_phases(6) [OF tm])
  have r1: "\<forall>pin\<in>set LED_PINS. pinLevel (tr @ mid) pin = Some False" if "noteHz = NOTE_REST"
    unfolding m start_def using that note_phases(7) [OF tm] by blast
  have r2: "sounding (tr @ mid) = None" if "noteHz = NOTE_REST"
    unfolding m start_def using that by (rule note_phases(8) [OF tm])
  have f1: "\<forall>pin\<in>set LED_PINS. pinLevel tr' pin = Some False"
    unfolding tr'_def using note_phases(9) [OF tm] by blast
  have f2: "sounding tr' = None" unfolding tr'_def by (rule note_phases(10) [OF tm])
  show ?thesis
    using p e w1 w2 sw on1 on2 r1 r2 f1 f2 by blast
qed

lemma playNotes_run:
  assumes row: "rd (lineNoteCounts cat) (uint songIdx) = Some row" and trm: "terminated row"
    and nts: "rd (melodyNotes cat) (uint songIdx) = Some notes"
    and durs: "rd (durationUnits cat) (uint songIdx) = Some durs"
    and leds: "rd (ledIndex cat) (uint songIdx) = Some leds"
    and t: "17 \<le> length (top_buf disp0)" and b: "17 \<le> length (bot_buf disp0)"
    and fresh: "lastLineDisplayed disp0 < 0"
    and off: "\<forall>pin\<in>set LED_PINS. pinLevel tr1 pin = Some False" and quiet: "sounding tr1 = None"
  shows "k \<le> length notes \<Longrightarrow> k \<le> length durs \<Longrightarrow> k \<le> length leds \<Longrightarrow>
         \<exists>dk tk. playNotes cat songIdx totalNotes unitMs (map int [0..<k]) disp0 tr1 = Some (dk, tk)
           \<and> 17 \<le> length (top_buf dk) \<and> 17 \<le> length (bot_buf dk)
           \<and> (\<forall>pin\<in>set LED_PINS. pinLevel tk pin = Some False) \<and> sounding tk = None
           \<and> (k = 0 \<longrightarrow> lastLineDisplayed dk < 0)
           \<and> (0 < k \<longrightarrow> (\<exists>a. firstStop row (int (k - 1)) a
                   \<and> lastLineDisplayed dk = int a \<and> displays cat songIdx tk a))"
proof (induction k)
  case 0
  then show ?case using t b fresh off quiet by simp
next
  case (Suc k)
  then have kl: "k \<le> length notes" "k \<le> length durs" "k \<le> length leds"
    and kn: "k < length notes" "k < length durs" "k < length leds" by simp_all
  from Suc.IH [OF kl] obtain dk tk where i:
    "playNotes cat songIdx totalNotes unitMs (map int [0..<k]) disp0 tr1 = Some (dk, tk)"
    "17 \<le> length (top_buf dk)" "17 \<le> length (bot_buf dk)"
    "k = 0 \<longrightarrow> lastLineDisplayed dk < 0"
    "0 < k \<longrightarrow> (\<exists>a. firstStop row (int (k - 1)) a
         \<and> lastLineDisplayed dk = int a \<and> displays cat songIdx tk a)"
    by blast
  have hz: "rd2 (melodyNotes cat) (uint songIdx) (int k) = Some (notes ! k)"
    using rd2_Some [OF nts, of "int k"] kn by simp
  have du: "rd2 (durationUnits cat) (uint songIdx) (int k) = Some (durs ! k)"
    using rd2_Some [OF durs, of "int k"] kn by simp
  have li: "rd2 (ledIndex cat) (uint songIdx) (int k) = Some (leds ! k)"
    using rd2_Some [OF leds, of "int k"] kn by simp
  from playNote_step [OF row trm hz du li i(2,3), of totalNotes unitMs tk]
  obtain a disp' where s:
    "firstStop row (int k) a"
    "playNote cat songIdx totalNotes unitMs (int k) dk tk =
       Some (disp',
             tk @ (if int a = lastLineDisplayed dk then [] else shownLines cat songIdx a)
                @ noteEvents (notes ! k) (durs ! k) unitMs (leds ! k))"
    "lastLineDisplayed disp' = int a"
    "17 \<le> length (top_buf disp')" "17 \<le> length (bot_buf disp')"
    by blast
  define shown where
    "shown = (if int a = lastLineDisplayed dk then [] else shownLines cat songIdx a)"
  define tk' where "tk' = tk @ shown @ noteEvents (notes ! k) (durs ! k) unitMs (leds ! k)"
  obtain tot on off where tm: "noteTiming (durs ! k) unitMs = (tot, on, off)"
    by (cases "noteTiming (durs ! k) unitMs") auto
  have run: "playNotes cat songIdx totalNotes unitMs (map int [0..<Suc k]) disp0 tr1 =
          Some (disp', tk')"
    using i(1) s(2) by (simp add: playNotes_snoc shown_def tk'_def)
  have f1: "\<forall>pin\<in>set LED_PINS. pinLevel tk' pin = Some False"
    unfolding tk'_def using note_phases(9) [OF tm] by blast
  have f2: "sounding tk' = None" unfolding tk'_def by (rule note_phases(10) [OF tm])
  have d: "displays cat songIdx tk' a"
  proof (cases "int a = lastLineDisplayed dk")
    case False
    then show ?thesis unfolding tk'_def shown_def
      by (simp add: displays_after_refresh)
  next
    case True
    then have "0 < k" using i(4) by (cases "k = 0") auto
    with i(5) obtain a0 where a0: "lastLineDisplayed dk = int a0" "displays cat songIdx tk a0"
      by blast
    then have "a0 = a" using True by simp
    then show ?thesis unfolding tk'_def shown_def using True a0(2)
      by (simp add: displays_kept)
  qed
  have "firstStop row (int (Suc k - 1)) a" using s(1) by simp
  then show ?case using run s(3-5) f1 f2 d by auto
qed

section \<open>Properties of the gate split\<close>

lemma bitlen_le: "m < 2 ^ b \<Longrightarrow> bitlen m \<le> b"
proof (induction b arbitrary: m)
  case 0
  then have "m = 0" by simp
  then show ?case by (simp add: bitlen.simps)
next
  case (Suc b)
  show ?case
  proof (cases "m = 0")
    case True
    then show ?thesis by (simp add: bitlen.simps)
  next
    case False
    have "m div 2 < 2 ^ b" using Suc.prems by simp
    then have "bitlen (m div 2) \<le> b" by (rule Suc.IH)
    then show ?thesis using False by (subst bitlen.simps) simp
  qed
qed

lemma round24_cases:
  "round24 m = (m div 2 ^ (bitlen m - 24)) * 2 ^ (bitlen m - 24)
   \<or> (round24 m = (m div 2 ^ (bitlen m - 24) + 1) * 2 ^ (bitlen m - 24)
      \<and> 2 ^ (bitlen m - 24) \<le> 2 * (m mod 2 ^ (bitlen m - 24)))"
  by (auto simp: round24_def Let_def)

lemma round24_small: "m < 2 ^ 24 \<Longrightarrow> round24 m = m"
proof -
  assume "m < 2 ^ 24"
  then have "bitlen m - 24 = 0" using bitlen_le [of m 24] by simp
  then show ?thesis by (simp add: round24_def Let_def)
qed

lemma round24_lower:
  assumes "2 ^ (bitlen m - 24) dvd V" and "V \<le> m"
  shows "V \<le> round24 m"
proof -
  let ?d = "(2::nat) ^ (bitlen m - 24)"
  have "V div ?d \<le> m div ?d" using assms(2) by (rule div_le_mono)
  then have "(V div ?d) * ?d \<le> (m div ?d) * ?d" by (rule mult_le_mono1)
  then have le: "V \<le> (m div ?d) * ?d" using assms(1) by simp
  also have "\<dots> \<le> (m div ?d + 1) * ?d" by simp
  finally have le': "V \<le> (m div ?d + 1) * ?d" .
  from round24_cases [of m] le le' show ?thesis by auto
qed

lemma round24_upper:
  assumes "2 ^ (bitlen m - 24) < 2 * (W - m)"
  shows "round24 m < W"
proof -
  let ?d = "(2::nat) ^ (bitlen m - 24)"
  let ?q = "m div ?d" and ?r = "m mod ?d"
  have m: "m = ?q * ?d + ?r" by (rule div_mult_mod_eq [symmetric])
  have dpos: "0 < ?d" by simp
  have mW: "m < W" using assms dpos by linarith
  have down: "?q * ?d \<le> m" by simp
  from round24_cases [of m] show ?thesis
  proof
    assume "round24 m = ?q * ?d"
    then show ?thesis using down mW by linarith
  next
    assume up: "round24 m = (?q + 1) * ?d \<and> ?d \<le> 2 * ?r"
    have "(?q + 1) * ?d = ?q * ?d + ?d" by simp
    moreover have "?r < ?d" by simp
    ultimately have "(?q + 1) * ?d + ?r = m + ?d" using m by linarith
    then show ?thesis using up assms by linarith
  qed
qed

lemma no_tie_in_last_stretch:
  fixes n :: nat
  assumes "281876 \<le> n" and "n < 281943"
  shows "93 * n mod 100 \<noteq> 99"
proof
  assume a: "93 * n mod 100 = 99"
  define q where "q = 93 * n div 100"
  have "93 * n = 100 * q + 93 * n mod 100" by (simp add: q_def)
  then have "93 * n = 100 * q + 99" using a by simp
  then have "int (93 * n) = int (100 * q + 99)" by simp
  then have e: "93 * int n = 100 * int q + 99" by simp
  define t where "t = 57 * int q + 56 - 53 * int n"
  have nt: "int n = 100 * t + 43" using e by (simp add: t_def)
  have lo: "281876 \<le> int n" and hi: "int n < 281943" using assms by simp_all
  have "t \<le> 2818 \<or> 2819 \<le> t" by linarith
  then show False
  proof
    assume "t \<le> 2818"
    then show False using nt lo by linarith
  next
    assume "2819 \<le> t"
    then show False using nt hi by linarith
  qed
qed

lemma gate_floor:
  assumes n: "n < 281943"
  shows "round24 (round24 n * GATE_mantissa) div 2 ^ 24 = n * 93 div 100"
proof -
  let ?P = "n * 15602811"
  let ?f = "n * 93 div 100"
  let ?k = "bitlen ?P - 24"
  have r1: "round24 n = n" using n by (intro round24_small) simp
  have f1: "100 * ?f \<le> 93 * n" by simp
  have f2: "93 * n < 100 * ?f + 100"
  proof -
    have "n * 93 = 100 * ?f + n * 93 mod 100" by simp
    moreover have "n * 93 mod 100 < 100" by simp
    ultimately show ?thesis by linarith
  qed
  have "?P < 2 ^ 43" using n by simp
  then have "bitlen ?P \<le> 43" by (rule bitlen_le)
  then have k19: "?k \<le> 19" by simp
  then have "(2::nat) ^ ?k dvd 2 ^ 24" by (intro le_imp_power_dvd) simp
  then have dv: "2 ^ ?k dvd ?f * 2 ^ 24" by (rule dvd_mult)
  have low: "?f * 2 ^ 24 \<le> ?P" using f1 by simp
  have L: "?f * 2 ^ 24 \<le> round24 ?P" using dv low by (rule round24_lower)
  have gap: "2 ^ ?k < 2 * ((?f + 1) * 2 ^ 24 - ?P)"
  proof (cases "n < 281876")
    case True
    then have "?P < 2 ^ 42" by simp
    then have "bitlen ?P \<le> 42" by (rule bitlen_le)
    then have "?k \<le> 18" by simp
    then have "(2::nat) ^ ?k \<le> 2 ^ 18" by (intro power_increasing) simp_all
    then have "(2::nat) ^ ?k \<le> 262144" by simp
    moreover have "262144 < 2 * ((?f + 1) * 2 ^ 24 - ?P)" using f2 True by simp
    ultimately show ?thesis by linarith
  next
    case False
    then have "93 * n mod 100 \<noteq> 99" using n by (intro no_tie_in_last_stretch) simp_all
    moreover have "93 * n mod 100 < 100" by simp
    ultimately have "93 * n mod 100 \<le> 98" by linarith
    then have "n * 93 mod 100 \<le> 98" by (simp add: mult.commute)
    moreover have "n * 93 = 100 * ?f + n * 93 mod 100" by simp
    ultimately have f3: "93 * n + 2 \<le> 100 * ?f + 100" by linarith
    have "(2::nat) ^ ?k \<le> 2 ^ 19" using k19 by (intro power_increasing) simp_all
    then have "(2::nat) ^ ?k \<le> 524288" by simp
    moreover have "524288 < 2 * ((?f + 1) * 2 ^ 24 - ?P)" using f3 n by simp
    ultimately show ?thesis by linarith
  qed
  have U: "round24 ?P < (?f + 1) * 2 ^ 24" using gap by (rule round24_upper)
  have "round24 ?P div 2 ^ 24 = ?f"
    using L U by (intro div_nat_eqI) (simp_all add: mult.commute)
  then show ?thesis by (simp add: r1 GATE_mantissa_def)
qed

text \<open>Evaluation at tempo 11 and a note of 109 duration units.\<close>

lemma bitlen_numeral:
  "bitlen 0 = 0"
  "bitlen (Suc 0) = Suc 0"
  "bitlen 1 = Suc 0"
  "bitlen (numeral w) = Suc (bitlen (numeral w div 2))"
  by (simp_all add: bitlen.simps [of 0] bitlen.simps [of "Suc 0"] bitlen.simps [of 1]
      bitlen.simps [of "numeral w"])

lemma bitlen_product: "bitlen 4637826350073 = 43" by (simp add: bitlen_numeral)
lemma round24_product: "round24 4637826350073 = 4637826482176"
  by (simp add: round24_def Let_def bitlen_product)
lemma gateOn_297243: "gateOn 297243 = 276436"
  by (simp add: gateOn_def GATE_mantissa_def round24_small round24_product)
lemma noteTiming_109_2727: "noteTiming 109 2727 = (297243, 276436, 20807)"
  by (simp add: noteTiming_def gateOn_297243)
lemma eighthMs_11: "eighthMs 11 = Some 2727" by (simp add: eighthMs_def)

lemma gateOn_floor:
  assumes "unat noteTotal < 281943"
  shows "unat (gateOn noteTotal) = unat noteTotal * 93 div 100"
proof -
  let ?n = "unat noteTotal"
  have g: "gateOn noteTotal = word_of_nat (?n * 93 div 100)"
    using gate_floor [OF assms] by (simp add: gateOn_def)
  have "?n * 93 div 100 \<le> ?n" by simp
  then have "?n * 93 div 100 < 2 ^ LENGTH(32)" using assms by simp
  then show ?thesis unfolding g by (simp add: unat_of_nat)
qed

section \<open>A whole run of the playback engine\<close>

text \<open>
  The state in which \<open>playSong\<close> enters its loop, the result of \<open>playSong\<close> in
  terms of the loop, and the facts of the three-note song that the instances below use.
\<close>

lemma eighthMs_defined:
  assumes "0 < bpm" and "bpm \<le> INT_MAX"
  shows "\<exists>unitMs. eighthMs bpm = Some unitMs"
proof -
  have "uint (word_of_int bpm :: ulong) = bpm" using assms by (rule uint_bpm)
  then have "(word_of_int bpm :: ulong) \<noteq> 0" using assms(1) by auto
  then show ?thesis by (simp add: eighthMs_def Let_def)
qed

lemma noteTiming_2_312: "noteTiming 2 312 = (624, 580, 44)"
proof -
  have b: "unat (624::ulong) < 281943" by simp
  have "gateOn 624 = word_of_nat (unat (624::ulong) * 93 div 100)"
    using gate_floor [OF b] by (simp add: gateOn_def)
  then have g: "gateOn 624 = 580" by simp
  show ?thesis by (simp add: noteTiming_def g)
qed

lemma three_len:
  "rd (melodyLen threeNoteCatalog) (uint (0::byte)) = Some 3"
  "rd (tempoBPM threeNoteCatalog) (uint (0::byte)) = Some 96"
  by (simp_all add: threeNoteCatalog_def rd_def)

lemma three_lengths:
  "unat (3::byte) \<le> length (zeroFill (nat MAX_NOTES) [NOTE_C4, NOTE_E4, NOTE_G4])"
  "unat (3::byte) \<le> length (zeroFill (nat MAX_NOTES) [2, 2, 4 :: byte])"
  "unat (3::byte) \<le> length (zeroFill (nat MAX_NOTES) [0, 7, 2 :: byte])"
  by (simp_all add: zeroFill_def MAX_NOTES_def)

lemma three_nth1:
  "zeroFill (nat MAX_NOTES) [NOTE_C4, NOTE_E4, NOTE_G4] ! 1 = NOTE_E4"
  "zeroFill (nat MAX_NOTES) [2, 2, 4 :: byte] ! 1 = 2"
  "zeroFill (nat MAX_NOTES) [0, 7, 2 :: byte] ! 1 = 7"
  by (simp_all add: zeroFill_def)

lemma setup_state:
  "\<forall>pin\<in>set LED_PINS.
     pinLevel (noTone BUZZER_PIN (allLEDsOff (lcdClear (announce songIdx tr)))) pin = Some False"
  "sounding (noTone BUZZER_PIN (allLEDsOff (lcdClear (announce songIdx tr)))) = None"
proof -
  have e: "noTone BUZZER_PIN (allLEDsOff (lcdClear (announce songIdx tr))) =
          ((announce songIdx tr @ [LcdClear]) @ ledsOff) @ [NoTone BUZZER_PIN]"
    by (simp add: noTone_def allLEDsOff_eq lcdClear_def)
  have "pinLevel (((announce songIdx tr @ [LcdClear]) @ ledsOff) @ [NoTone BUZZER_PIN]) pin
          = Some False" if "pin \<in> set LED_PINS" for pin
    using that by (simp only: pinLevel_snoc_other pinLevel_ledsOff)
  then show "\<forall>pin\<in>set LED_PINS.
     pinLevel (noTone BUZZER_PIN (allLEDsOff (lcdClear (announce songIdx tr)))) pin = Some False"
    unfolding e by blast
  show "sounding (noTone BUZZER_PIN (allLEDsOff (lcdClear (announce songIdx tr)))) = None"
    unfolding e by (simp only: sounding_snoc)
qed

lemma playSong_eq:
  assumes len: "rd (melodyLen cat) (uint songIdx) = Some len"
    and bpm: "rd (tempoBPM cat) (uint songIdx) = Some bpm"
    and playable: "0 < uint len" "0 < bpm"
    and u: "eighthMs bpm = Some unitMs"
    and r: "playNotes cat songIdx (uint len) unitMs (map int [0..<unat len])
              \<lparr> lastLineDisplayed = - 999, top_buf = replicate 17 NUL,
                bot_buf = replicate 17 NUL \<rparr>
              (noTone BUZZER_PIN (allLEDsOff (lcdClear (announce songIdx tr))))
            = Some (disp, trN)"
  shows "playSong cat songIdx tr = Some (finish trN)"
proof -
  let ?disp0 = "\<lparr> lastLineDisplayed = - 999, top_buf = replicate 17 NUL,
                   bot_buf = replicate 17 NUL \<rparr>"
  let ?tr1 = "noTone BUZZER_PIN (allLEDsOff (lcdClear (announce songIdx tr)))"
  have nl: "nat (uint len) = unat len" by simp
  have loop: "playLoop cat songIdx (uint len) unitMs 0 ?disp0 ?tr1 = Some trN"
    using playLoop_playNotes [of 0 "uint len" cat songIdx unitMs ?disp0 ?tr1] r nl by simp
  show ?thesis
    using len bpm playable u loop by (simp add: playSong_def Let_def)
qed

text \<open>
  A run over a list of notes is the run over its first part followed by the run over
  the rest, so the state after note \<open>j\<close> is reached from the state after note \<open>i\<close> by
  playing the notes in between.
\<close>

lemma playNotes_append:
  "playNotes cat songIdx totalNotes unitMs (ns @ ms) disp tr =
     (case playNotes cat songIdx totalNotes unitMs ns disp tr of
        None \<Rightarrow> None
      | Some (d, x) \<Rightarrow> playNotes cat songIdx totalNotes unitMs ms d x)"
proof (induction ns arbitrary: disp tr)
  case Nil
  then show ?case by simp
next
  case (Cons m ns)
  then show ?case by (simp split: option.splits prod.splits)
qed

lemma playNotes_split:
  assumes ij: "i \<le> j"
    and a: "playNotes cat songIdx totalNotes unitMs (map int [0..<i]) disp tr = Some (di, ti)"
    and b: "playNotes cat songIdx totalNotes unitMs (map int [0..<j]) disp tr = Some (dj, tj)"
  shows "playNotes cat songIdx totalNotes unitMs (map int [i..<j]) di ti = Some (dj, tj)"
proof -
  have "[0..<j] = [0..<i] @ [i..<j]"
    using ij upt_add_eq_append [of 0 i "j - i"] by simp
  then have "map int [0..<j] = map int [0..<i] @ map int [i..<j]" by simp
  then show ?thesis using a b by (simp add: playNotes_append)
qed

text \<open>The indexer and the lyric lines of the three-note song.\<close>

lemma three_index:
  "getLineInfoFromNotesPlayed threeNoteCatalog 0 0 3 = Some (0, 0, 1)"
  "getLineInfoFromNotesPlayed threeNoteCatalog 0 2 3 = Some (2, 2, 1)"
  by code_simp+

lemma three_lines:
  "lineText threeNoteCatalog 0 0 = ''A''"
  "lineText threeNoteCatalog 0 1 = ''BB''"
  "lineText threeNoteCatalog 0 2 = ''CCC''"
  "lineText threeNoteCatalog 0 3 = ''''"
  by code_simp+

section \<open>Bounds on the sounding time\<close>

text \<open>
  The sounding time never exceeds the note: each of the two roundings grows its
  argument by at most the factor \<open>1 + 2^-24\<close>, and \<open>GATE\<close> times the square of this
  factor is below one.
\<close>

lemma bitlen_bounds: "m < 2 ^ bitlen m \<and> (0 < m \<longrightarrow> 2 ^ bitlen m \<le> 2 * m)"
proof (induction m rule: bitlen.induct)
  case (1 n)
  show ?case
  proof (cases "n = 0")
    case True
    then show ?thesis by (simp add: bitlen.simps)
  next
    case False
    then have ih: "n div 2 < 2 ^ bitlen (n div 2)"
      "0 < n div 2 \<longrightarrow> 2 ^ bitlen (n div 2) \<le> 2 * (n div 2)"
      using 1 by simp_all
    have b: "bitlen n = Suc (bitlen (n div 2))" using False by (subst bitlen.simps) simp
    have up: "n < 2 ^ bitlen n" using ih(1) unfolding b by simp
    have lo: "2 ^ bitlen n \<le> 2 * n"
    proof (cases "n div 2 = 0")
      case True
      then have "n = 1" using False by (simp add: div_eq_0_iff) 
      then show ?thesis by (simp add: bitlen_numeral)
    next
      case nz: False
      then have "2 ^ bitlen (n div 2) \<le> 2 * (n div 2)" using ih(2) by simp
      also have "\<dots> \<le> n" by simp
      finally show ?thesis unfolding b by simp
    qed
    show ?thesis using up lo by simp
  qed
qed

lemma round24_rel: "2 ^ 24 * round24 m \<le> (2 ^ 24 + 1) * m"
proof (cases "m < 2 ^ 24")
  case True
  then show ?thesis by (simp add: round24_small)
next
  case False
  let ?d = "(2::nat) ^ (bitlen m - 24)"
  have pos: "0 < m" using False by simp
  have lt: "(2::nat) ^ 24 < 2 ^ bitlen m"
    using False bitlen_bounds [of m] by (simp add: not_less order_le_less_trans)
  have "24 < bitlen m"
    by (rule power_less_imp_less_exp [OF _ lt]) simp
  then have "bitlen m = (bitlen m - 24) + 24" by simp
  then have "(2::nat) ^ bitlen m = ?d * 2 ^ 24" by (metis power_add)
  then have d: "?d * 2 ^ 24 \<le> 2 * m" using bitlen_bounds [of m] pos by simp
  have r: "2 * round24 m \<le> 2 * m + ?d"
  proof -
    have m: "(m div ?d) * ?d + m mod ?d = m" by (rule div_mult_mod_eq)
    from round24_cases [of m] show ?thesis
    proof
      assume "round24 m = (m div ?d) * ?d"
      then have "round24 m \<le> m" using m by linarith
      then show ?thesis by simp
    next
      assume c: "round24 m = (m div ?d + 1) * ?d \<and> ?d \<le> 2 * (m mod ?d)"
      then have "round24 m = (m div ?d) * ?d + ?d" by simp
      then have "2 * round24 m = 2 * ((m div ?d) * ?d) + 2 * ?d" by simp
      also have "\<dots> \<le> 2 * ((m div ?d) * ?d) + (2 * (m mod ?d) + ?d)" using c by simp
      also have "\<dots> = 2 * ((m div ?d) * ?d + m mod ?d) + ?d" by simp
      also have "\<dots> = 2 * m + ?d" by (simp only: m)
      finally show ?thesis .
    qed
  qed
  have "2 ^ 24 * round24 m = 2 ^ 23 * (2 * round24 m)" by simp
  also have "\<dots> \<le> 2 ^ 23 * (2 * m + ?d)" using r by (rule mult_le_mono2)
  also have "\<dots> = 2 ^ 24 * m + 2 ^ 23 * ?d" by (simp add: algebra_simps)
  also have "\<dots> \<le> 2 ^ 24 * m + m" using d by simp
  also have "\<dots> = (2 ^ 24 + 1) * m" by (simp add: algebra_simps)
  finally show ?thesis .
qed

lemma gate_le: "round24 (round24 n * GATE_mantissa) div 2 ^ 24 \<le> n"
proof -
  let ?G = "15602811 :: nat"
  let ?P = "round24 n * ?G"
  let ?c = "(2::nat) ^ 24 + 1"
  have "2 ^ 24 * (2 ^ 24 * round24 ?P) \<le> 2 ^ 24 * (?c * ?P)"
    using round24_rel [of ?P] by (rule mult_le_mono2)
  also have "\<dots> = ?c * ?G * (2 ^ 24 * round24 n)" by (simp add: algebra_simps)
  also have "\<dots> \<le> ?c * ?G * (?c * n)"
    using round24_rel [of n] by (rule mult_le_mono2)
  also have "\<dots> = (?c * ?c * ?G) * n" by (simp add: algebra_simps)
  also have "\<dots> \<le> (2 ^ 24 * (2 ^ 24 * 2 ^ 24)) * n"
  proof (rule mult_le_mono1)
    show "?c * ?c * ?G \<le> 2 ^ 24 * (2 ^ 24 * 2 ^ 24)" by simp
  qed
  also have "\<dots> = 2 ^ 24 * (2 ^ 24 * (2 ^ 24 * n))" by (simp add: algebra_simps)
  finally have "2 ^ 24 * round24 ?P \<le> 2 ^ 24 * (2 ^ 24 * n)" by simp
  then have "round24 ?P \<le> 2 ^ 24 * n" by simp
  then have "round24 ?P div 2 ^ 24 \<le> (2 ^ 24 * n) div 2 ^ 24" by (rule div_le_mono)
  then show ?thesis by (simp add: GATE_mantissa_def)
qed

lemma gateOn_le: "unat (gateOn noteTotal) \<le> unat noteTotal"
proof -
  let ?r = "round24 (round24 (unat noteTotal) * GATE_mantissa) div 2 ^ 24"
  have "unat (gateOn noteTotal) = ?r mod 2 ^ LENGTH(32)"
    by (simp add: gateOn_def unat_of_nat)
  also have "\<dots> \<le> ?r" by (rule mod_less_eq_dividend)
  also have "\<dots> \<le> unat noteTotal" by (rule gate_le)
  finally show ?thesis .
qed

text \<open>At 28 beats per minute and above, every note is shorter than 281943 ms.\<close>

lemma eighthMs_value:
  assumes "0 < bpm" and "bpm \<le> INT_MAX" and "eighthMs bpm = Some unitMs"
  shows "uint unitMs = (60000 div bpm) div 2"
proof -
  let ?d = "word_of_int bpm :: ulong"
  have d: "uint ?d = bpm" using assms(1,2) by (rule uint_bpm)
  then have nz: "?d \<noteq> 0" using assms(1) by auto
  have "unitMs = (60000 div ?d) div 2" using assms(3) nz by (simp add: eighthMs_def Let_def)
  then show ?thesis by (simp add: uint_div d)
qed

lemma noteTotal_small:
  assumes "28 \<le> bpm" and "bpm \<le> INT_MAX" and "eighthMs bpm = Some unitMs"
  shows "unat (if ucast (durU :: byte) * unitMs = 0 then 1 else ucast durU * unitMs) < 281943"
proof -
  have "0 < bpm" using assms(1) by simp
  then have "uint unitMs = (60000 div bpm) div 2" using assms(2,3) by (rule eighthMs_value)
  also have "\<dots> = 60000 div (bpm * 2)" by (simp add: zdiv_zmult2_eq)
  finally have e: "uint unitMs = 60000 div (bpm * 2)" .
  have b: "(56::int) \<le> bpm * 2" using assms(1) by linarith
  have a0: "(0::int) \<le> 60000" and b0: "(0::int) < 56" by simp_all
  have m: "60000 div (bpm * 2) \<le> 60000 div (56::int)" using a0 b0 b by (rule zdiv_mono2)
  have v: "60000 div (56::int) = 1071" by simp
  have "uint unitMs \<le> 1071" using m unfolding e v .
  then have "nat (uint unitMs) \<le> nat 1071" by (rule nat_mono)
  then have u: "unat unitMs \<le> 1071" by simp
  have "unat durU < 2 ^ LENGTH(8)" by (rule unsigned_less)
  then have dd: "unat durU \<le> 255" by simp
  have small: "unat durU < 2 ^ LENGTH(32)" using dd by simp
  have "unat (ucast durU :: ulong) = take_bit LENGTH(32) (unat durU)"
    by (rule unsigned_ucast_eq)
  also have "\<dots> = unat durU" using small by (rule take_bit_nat_eq_self)
  finally have uc: "unat (ucast durU :: ulong) = unat durU" .
  have "unat (ucast durU :: ulong) * unat unitMs \<le> 255 * 1071"
    unfolding uc using dd u by (rule mult_le_mono)
  then have p: "unat (ucast durU :: ulong) * unat unitMs \<le> 273105" by simp
  have "unat (ucast durU * unitMs) = unat (ucast durU :: ulong) * unat unitMs mod 2 ^ LENGTH(32)"
    by (rule unat_word_ariths(2))
  also have "\<dots> \<le> unat (ucast durU :: ulong) * unat unitMs" by (rule mod_less_eq_dividend)
  finally have "unat (ucast durU * unitMs) \<le> 273105" using p by (rule order_trans)
  then show ?thesis by simp
qed

text \<open>Reads of the catalog with the slow note, and the two waits of one loop step.\<close>

lemma slow_reads:
  "rd (lineNoteCounts slowNoteCatalog) (uint (0::byte))
     = Some (zeroFill (unat MAX_LINES) [1, 1, 1, 0])"
  "rd (tempoBPM slowNoteCatalog) (uint (0::byte)) = Some 11"
  "rd2 (melodyNotes slowNoteCatalog) (uint (0::byte)) 0 = Some NOTE_C4"
  "rd2 (durationUnits slowNoteCatalog) (uint (0::byte)) 0 = Some 109"
  "rd2 (ledIndex slowNoteCatalog) (uint (0::byte)) 0 = Some 0"
  by (simp_all add: slowNoteCatalog_def threeNoteCatalog_def karaoke_def lineNoteCounts_data_def
      melodyNotes_data_def durationUnits_data_def ledIndex_data_def rd_def rd2_def
      zeroFill_def MAX_NOTES_def)

lemma two_waits:
  assumes "filter isWait mid = []" and "filter isWait post = [Wait off]"
  shows "filter isWait ([] @ mid @ Wait on # post) = [Wait on, Wait off]"
  using assms by simp

section \<open>A run is one light cycle per note\<close>

text \<open>
  Claim C4. For every playable song (\<open>melodyLen > 0\<close>, \<open>0 < tempo \<le> INT_MAX\<close>) whose
  tracks hold at least \<open>melodyLen\<close> entries and whose \<open>lineNoteCounts\<close> row is terminated,
  \<open>playSong\<close> returns, and its run is exactly \<open>melodyLen\<close> iterations of the per-note
  step \<open>playNote\<close>, for the note numbers \<open>0, 1, \<dots>, melodyLen - 1\<close> in this order.

  Each iteration \<open>k\<close> is one cycle. It starts from a state \<open>tk\<close> with all five lights off
  and no tone. Its events are \<open>mid @ Wait on # post\<close>, where \<open>(tot, on, off)\<close> is the
  timing of the note: \<open>mid\<close> holds no wait, \<open>Wait on\<close> is the sounding time and the
  only wait of \<open>post\<close> is \<open>Wait off\<close>, the gap. When the note is not a rest, after
  \<open>mid\<close>, that is during the whole sounding time, exactly one light is on, the one at
  the clamped index of the light track, and the tone of the note sounds; a light is
  switched on exactly once in the cycle. When the note is a rest, no light is switched
  on and nothing sounds. At the end of the iteration all five lights are off again and
  the tone is stopped, and this state is where iteration \<open>k + 1\<close> starts.

  For the whole run: the trace has \<open>2 * melodyLen + 2\<close> more waits than before (two per
  note, one in the announcement, one at completion), a light is switched on once per
  non-rest note among the first \<open>melodyLen\<close> notes, and in the final state all five
  lights are off and the tone is stopped.
\<close>

theorem playSong_completes:
  assumes len: "rd (melodyLen cat) (uint songIdx) = Some len"
    and bpm: "rd (tempoBPM cat) (uint songIdx) = Some bpm"
    and playable: "0 < uint len" "0 < bpm" "bpm \<le> INT_MAX"
    and nts: "rd (melodyNotes cat) (uint songIdx) = Some notes" "unat len \<le> length notes"
    and durs: "rd (durationUnits cat) (uint songIdx) = Some durs" "unat len \<le> length durs"
    and leds: "rd (ledIndex cat) (uint songIdx) = Some leds" "unat len \<le> length leds"
    and row: "rd (lineNoteCounts cat) (uint songIdx) = Some row" "terminated row"
  shows "\<exists>unitMs.
           eighthMs bpm = Some unitMs
           \<and> (\<forall>k<unat len. \<exists>dk tk dk' tk' mid post tot on off.
                 playNotes cat songIdx (uint len) unitMs (map int [0..<k])
                     \<lparr> lastLineDisplayed = - 999, top_buf = replicate 17 NUL,
                       bot_buf = replicate 17 NUL \<rparr>
                     (noTone BUZZER_PIN (allLEDsOff (lcdClear (announce songIdx tr))))
                   = Some (dk, tk)
                 \<and> playNote cat songIdx (uint len) unitMs (int k) dk tk = Some (dk', tk')
                 \<and> playNotes cat songIdx (uint len) unitMs (map int [0..<Suc k])
                     \<lparr> lastLineDisplayed = - 999, top_buf = replicate 17 NUL,
                       bot_buf = replicate 17 NUL \<rparr>
                     (noTone BUZZER_PIN (allLEDsOff (lcdClear (announce songIdx tr))))
                   = Some (dk', tk')
                 \<and> noteTiming (durs ! k) unitMs = (tot, on, off)
                 \<and> tk' = tk @ mid @ Wait on # post
                 \<and> filter isWait mid = [] \<and> filter isWait post = [Wait off]
                 \<and> length (filter isSwitchOn (mid @ Wait on # post)) =
                     (if notes ! k \<noteq> NOTE_REST then 1 else 0)
                 \<and> (\<forall>pin\<in>set LED_PINS. pinLevel tk pin = Some False)
                 \<and> sounding tk = None
                 \<and> (notes ! k \<noteq> NOTE_REST \<longrightarrow>
                       (\<forall>pin\<in>set LED_PINS.
                           pinLevel (tk @ mid) pin =
                             Some (pin = LED_PINS ! min (unat (leds ! k)) 4))
                       \<and> sounding (tk @ mid) = Some (notes ! k))
                 \<and> (notes ! k = NOTE_REST \<longrightarrow>
                       (\<forall>pin\<in>set LED_PINS. pinLevel (tk @ mid) pin = Some False)
                       \<and> sounding (tk @ mid) = None)
                 \<and> (\<forall>pin\<in>set LED_PINS. pinLevel tk' pin = Some False)
                 \<and> sounding tk' = None)
           \<and> (\<exists>disp trN.
                 playNotes cat songIdx (uint len) unitMs (map int [0..<unat len])
                     \<lparr> lastLineDisplayed = - 999, top_buf = replicate 17 NUL,
                       bot_buf = replicate 17 NUL \<rparr>
                     (noTone BUZZER_PIN (allLEDsOff (lcdClear (announce songIdx tr))))
                   = Some (disp, trN)
                 \<and> playSong cat songIdx tr = Some (finish trN)
                 \<and> length (filter isWait (finish trN)) =
                     length (filter isWait tr) + 2 * unat len + 2
                 \<and> length (filter isSwitchOn (finish trN)) =
                     length (filter isSwitchOn tr)
                     + length (filter (\<lambda>hz. hz \<noteq> NOTE_REST) (take (unat len) notes))
                 \<and> (\<forall>pin\<in>set LED_PINS. pinLevel (finish trN) pin = Some False)
                 \<and> sounding (finish trN) = None)"
proof -
  from eighthMs_defined [OF playable(2,3)] obtain unitMs where u: "eighthMs bpm = Some unitMs"
    by blast
  let ?disp0 = "\<lparr> lastLineDisplayed = - 999, top_buf = replicate 17 NUL,
                   bot_buf = replicate 17 NUL \<rparr>"
  let ?tr1 = "noTone BUZZER_PIN (allLEDsOff (lcdClear (announce songIdx tr)))"
  let ?ns = "[0..<unat len]"
  have t: "17 \<le> length (top_buf ?disp0)" and b: "17 \<le> length (bot_buf ?disp0)"
    and fresh: "lastLineDisplayed ?disp0 < 0" by simp_all
  note run = playNotes_run [OF row nts(1) durs(1) leds(1) t b fresh setup_state,
      of _ "uint len" unitMs]
  have steps: "\<exists>dk tk dk' tk' mid post tot on off.
        playNotes cat songIdx (uint len) unitMs (map int [0..<k]) ?disp0 ?tr1 = Some (dk, tk)
      \<and> playNote cat songIdx (uint len) unitMs (int k) dk tk = Some (dk', tk')
      \<and> playNotes cat songIdx (uint len) unitMs (map int [0..<Suc k]) ?disp0 ?tr1
          = Some (dk', tk')
      \<and> noteTiming (durs ! k) unitMs = (tot, on, off)
      \<and> tk' = tk @ mid @ Wait on # post
      \<and> filter isWait mid = [] \<and> filter isWait post = [Wait off]
      \<and> length (filter isSwitchOn (mid @ Wait on # post)) =
          (if notes ! k \<noteq> NOTE_REST then 1 else 0)
      \<and> (\<forall>pin\<in>set LED_PINS. pinLevel tk pin = Some False)
      \<and> sounding tk = None
      \<and> (notes ! k \<noteq> NOTE_REST \<longrightarrow>
            (\<forall>pin\<in>set LED_PINS.
                pinLevel (tk @ mid) pin = Some (pin = LED_PINS ! min (unat (leds ! k)) 4))
            \<and> sounding (tk @ mid) = Some (notes ! k))
      \<and> (notes ! k = NOTE_REST \<longrightarrow>
            (\<forall>pin\<in>set LED_PINS. pinLevel (tk @ mid) pin = Some False)
            \<and> sounding (tk @ mid) = None)
      \<and> (\<forall>pin\<in>set LED_PINS. pinLevel tk' pin = Some False)
      \<and> sounding tk' = None"
    if k: "k < unat len" for k
  proof -
    have kl: "k \<le> length notes" "k \<le> length durs" "k \<le> length leds"
      and kn: "k < length notes" "k < length durs" "k < length leds"
      using k nts(2) durs(2) leds(2) by simp_all
    from run [OF kl] obtain dk tk where i:
      "playNotes cat songIdx (uint len) unitMs (map int [0..<k]) ?disp0 ?tr1 = Some (dk, tk)"
      "17 \<le> length (top_buf dk)" "17 \<le> length (bot_buf dk)"
      "\<forall>pin\<in>set LED_PINS. pinLevel tk pin = Some False" "sounding tk = None"
      by blast
    have hz: "rd2 (melodyNotes cat) (uint songIdx) (int k) = Some (notes ! k)"
      using rd2_Some [OF nts(1), of "int k"] kn by simp
    have du: "rd2 (durationUnits cat) (uint songIdx) (int k) = Some (durs ! k)"
      using rd2_Some [OF durs(1), of "int k"] kn by simp
    have li: "rd2 (ledIndex cat) (uint songIdx) (int k) = Some (leds ! k)"
      using rd2_Some [OF leds(1), of "int k"] kn by simp
    obtain tot on off where tm: "noteTiming (durs ! k) unitMs = (tot, on, off)"
      by (cases "noteTiming (durs ! k) unitMs") auto
    from playNote_cycle [OF row hz du li i(2,3) tm, of "uint len" tk]
    obtain dk' tk' mid post where c:
      "playNote cat songIdx (uint len) unitMs (int k) dk tk = Some (dk', tk')"
      "tk' = tk @ mid @ Wait on # post"
      "filter isWait mid = []" "filter isWait post = [Wait off]"
      "length (filter isSwitchOn (mid @ Wait on # post)) =
         (if notes ! k \<noteq> NOTE_REST then 1 else 0)"
      "notes ! k \<noteq> NOTE_REST \<longrightarrow>
         (\<forall>pin\<in>set LED_PINS.
             pinLevel (tk @ mid) pin = Some (pin = LED_PINS ! min (unat (leds ! k)) 4))
         \<and> sounding (tk @ mid) = Some (notes ! k)"
      "notes ! k = NOTE_REST \<longrightarrow>
         (\<forall>pin\<in>set LED_PINS. pinLevel (tk @ mid) pin = Some False)
         \<and> sounding (tk @ mid) = None"
      "\<forall>pin\<in>set LED_PINS. pinLevel tk' pin = Some False"
      "sounding tk' = None"
      by blast
    have nxt: "playNotes cat songIdx (uint len) unitMs (map int [0..<Suc k]) ?disp0 ?tr1
          = Some (dk', tk')"
      using i(1) c(1) by (simp add: playNotes_snoc)
    show ?thesis
      using i(1,4,5) c nxt tm by blast
  qed
  have inr: "\<forall>n\<in>set ?ns. n < length notes \<and> n < length durs \<and> n < length leds"
    using nts(2) durs(2) leds(2) by auto
  from playNotes_counts [OF row nts(1) durs(1) leds(1) inr t b, of "uint len" unitMs ?tr1]
  obtain disp trN where r:
    "playNotes cat songIdx (uint len) unitMs (map int ?ns) ?disp0 ?tr1 = Some (disp, trN)"
    "length (filter isWait trN) = length (filter isWait ?tr1) + 2 * length ?ns"
    "length (filter isSwitchOn trN) =
       length (filter isSwitchOn ?tr1)
       + length (filter (\<lambda>hz. hz \<noteq> NOTE_REST) (map (\<lambda>n. notes ! n) ?ns))"
    by blast
  have song: "playSong cat songIdx tr = Some (finish trN)"
    using len bpm playable(1,2) u r(1) by (rule playSong_eq)
  have waits: "length (filter isWait (finish trN)) = length (filter isWait tr) + 2 * unat len + 2"
    using r(2) by (simp add: finish_state(3) setup_counts(1))
  have "map (\<lambda>n. notes ! n) ?ns = take (unat len) notes"
    using nts(2) by (rule take_as_map_nth)
  then have switches: "length (filter isSwitchOn (finish trN)) =
      length (filter isSwitchOn tr)
      + length (filter (\<lambda>hz. hz \<noteq> NOTE_REST) (take (unat len) notes))"
    using r(3) by (simp add: finish_state(4) setup_counts(2))
  have off: "\<forall>pin\<in>set LED_PINS. pinLevel (finish trN) pin = Some False"
    by (simp add: finish_state(1))
  have quiet: "sounding (finish trN) = None" by (rule finish_state(2))
  have whole: "\<exists>disp trN.
      playNotes cat songIdx (uint len) unitMs (map int ?ns) ?disp0 ?tr1 = Some (disp, trN)
      \<and> playSong cat songIdx tr = Some (finish trN)
      \<and> length (filter isWait (finish trN)) = length (filter isWait tr) + 2 * unat len + 2
      \<and> length (filter isSwitchOn (finish trN)) =
          length (filter isSwitchOn tr)
          + length (filter (\<lambda>hz. hz \<noteq> NOTE_REST) (take (unat len) notes))
      \<and> (\<forall>pin\<in>set LED_PINS. pinLevel (finish trN) pin = Some False)
      \<and> sounding (finish trN) = None"
    using r(1) song waits switches off quiet by blast
  show ?thesis
    using u steps whole by (intro exI [of _ unitMs] conjI allI impI)
qed

text \<open>
  The instance: the three-note song (C4, E4, G4, no rest) at tempo 96. Its second
  iteration starts with all lights off, lights pin 8 alone (light-track entry 7,
  clamped to 4) with the tone of E4 for 580 ms, and ends after a gap of 44 ms with all
  lights off. The whole run has 8 waits and 3 switch-on writes and ends dark and silent.
\<close>

theorem playSong_completes_witness:
  "rd (melodyLen threeNoteCatalog) (uint (0::byte)) = Some 3
   \<and> rd (tempoBPM threeNoteCatalog) (uint (0::byte)) = Some 96
   \<and> 0 < uint (3::byte) \<and> (0::int) < 96 \<and> 96 \<le> INT_MAX
   \<and> rd (melodyNotes threeNoteCatalog) (uint (0::byte))
       = Some (zeroFill (nat MAX_NOTES) [NOTE_C4, NOTE_E4, NOTE_G4])
   \<and> unat (3::byte) \<le> length (zeroFill (nat MAX_NOTES) [NOTE_C4, NOTE_E4, NOTE_G4])
   \<and> rd (durationUnits threeNoteCatalog) (uint (0::byte))
       = Some (zeroFill (nat MAX_NOTES) [2, 2, 4])
   \<and> unat (3::byte) \<le> length (zeroFill (nat MAX_NOTES) [2, 2, 4 :: byte])
   \<and> rd (ledIndex threeNoteCatalog) (uint (0::byte))
       = Some (zeroFill (nat MAX_NOTES) [0, 7, 2])
   \<and> unat (3::byte) \<le> length (zeroFill (nat MAX_NOTES) [0, 7, 2 :: byte])
   \<and> rd (lineNoteCounts threeNoteCatalog) (uint (0::byte))
       = Some (zeroFill (unat MAX_LINES) [1, 1, 1, 0])
   \<and> terminated (zeroFill (unat MAX_LINES) [1, 1, 1, 0 :: byte])
   \<and> eighthMs 96 = Some 312
   \<and> noteTiming 2 312 = (624, 580, 44)
   \<and> (\<exists>dk tk dk' tk' mid post.
         playNotes threeNoteCatalog 0 (uint (3::byte)) 312 (map int [0..<1])
             \<lparr> lastLineDisplayed = - 999, top_buf = replicate 17 NUL,
               bot_buf = replicate 17 NUL \<rparr>
             (noTone BUZZER_PIN (allLEDsOff (lcdClear (announce 0 [])))) = Some (dk, tk)
         \<and> playNote threeNoteCatalog 0 (uint (3::byte)) 312 (int 1) dk tk = Some (dk', tk')
         \<and> playNotes threeNoteCatalog 0 (uint (3::byte)) 312 (map int [0..<Suc 1])
             \<lparr> lastLineDisplayed = - 999, top_buf = replicate 17 NUL,
               bot_buf = replicate 17 NUL \<rparr>
             (noTone BUZZER_PIN (allLEDsOff (lcdClear (announce 0 [])))) = Some (dk', tk')
         \<and> tk' = tk @ mid @ Wait 580 # post
         \<and> filter isWait mid = [] \<and> filter isWait post = [Wait 44]
         \<and> length (filter isSwitchOn (mid @ Wait 580 # post)) = 1
         \<and> pinLevel tk 4 = Some False \<and> pinLevel tk 5 = Some False
         \<and> pinLevel tk 6 = Some False \<and> pinLevel tk 7 = Some False
         \<and> pinLevel tk 8 = Some False \<and> sounding tk = None
         \<and> pinLevel (tk @ mid) 4 = Some False \<and> pinLevel (tk @ mid) 5 = Some False
         \<and> pinLevel (tk @ mid) 6 = Some False \<and> pinLevel (tk @ mid) 7 = Some False
         \<and> pinLevel (tk @ mid) 8 = Some True \<and> sounding (tk @ mid) = Some NOTE_E4
         \<and> pinLevel tk' 4 = Some False \<and> pinLevel tk' 5 = Some False
         \<and> pinLevel tk' 6 = Some False \<and> pinLevel tk' 7 = Some False
         \<and> pinLevel tk' 8 = Some False \<and> sounding tk' = None)
   \<and> (\<exists>tr'. playSong threeNoteCatalog 0 [] = Some tr'
         \<and> length (filter isWait tr') = 8
         \<and> length (filter isSwitchOn tr') = 3
         \<and> pinLevel tr' 4 = Some False \<and> pinLevel tr' 5 = Some False
         \<and> pinLevel tr' 6 = Some False \<and> pinLevel tr' 7 = Some False
         \<and> pinLevel tr' 8 = Some False
         \<and> sounding tr' = None)"
proof -
  let ?notes = "zeroFill (nat MAX_NOTES) [NOTE_C4, NOTE_E4, NOTE_G4]"
  let ?durs = "zeroFill (nat MAX_NOTES) [2, 2, 4 :: byte]"
  let ?leds = "zeroFill (nat MAX_NOTES) [0, 7, 2 :: byte]"
  let ?disp0 = "\<lparr> lastLineDisplayed = - 999, top_buf = replicate 17 NUL,
                   bot_buf = replicate 17 NUL \<rparr>"
  let ?tr1 = "noTone BUZZER_PIN (allLEDsOff (lcdClear (announce 0 [])))"
  have h3: "0 < uint (3::byte)" and h4: "(0::int) < 96" and h5: "96 \<le> INT_MAX"
    by (simp_all add: INT_MAX_def)
  have u: "eighthMs 96 = Some 312" by (simp add: eighthMs_def)
  from playSong_completes [OF three_len h3 h4 h5 three_notes(1) three_lengths(1)
      three_notes(2) three_lengths(2) three_notes(3) three_lengths(3)
      three_row three_row_terminated, of "[]"] u
  have steps: "\<forall>k<unat (3::byte). \<exists>dk tk dk' tk' mid post tot on off.
         playNotes threeNoteCatalog 0 (uint (3::byte)) 312 (map int [0..<k]) ?disp0 ?tr1
           = Some (dk, tk)
         \<and> playNote threeNoteCatalog 0 (uint (3::byte)) 312 (int k) dk tk = Some (dk', tk')
         \<and> playNotes threeNoteCatalog 0 (uint (3::byte)) 312 (map int [0..<Suc k]) ?disp0 ?tr1
           = Some (dk', tk')
         \<and> noteTiming (?durs ! k) 312 = (tot, on, off)
         \<and> tk' = tk @ mid @ Wait on # post
         \<and> filter isWait mid = [] \<and> filter isWait post = [Wait off]
         \<and> length (filter isSwitchOn (mid @ Wait on # post)) =
             (if ?notes ! k \<noteq> NOTE_REST then 1 else 0)
         \<and> (\<forall>pin\<in>set LED_PINS. pinLevel tk pin = Some False)
         \<and> sounding tk = None
         \<and> (?notes ! k \<noteq> NOTE_REST \<longrightarrow>
               (\<forall>pin\<in>set LED_PINS.
                   pinLevel (tk @ mid) pin = Some (pin = LED_PINS ! min (unat (?leds ! k)) 4))
               \<and> sounding (tk @ mid) = Some (?notes ! k))
         \<and> (?notes ! k = NOTE_REST \<longrightarrow>
               (\<forall>pin\<in>set LED_PINS. pinLevel (tk @ mid) pin = Some False)
               \<and> sounding (tk @ mid) = None)
         \<and> (\<forall>pin\<in>set LED_PINS. pinLevel tk' pin = Some False)
         \<and> sounding tk' = None"
    and whole: "\<exists>disp trN.
         playNotes threeNoteCatalog 0 (uint (3::byte)) 312 (map int [0..<unat (3::byte)])
             ?disp0 ?tr1 = Some (disp, trN)
         \<and> playSong threeNoteCatalog 0 [] = Some (finish trN)
         \<and> length (filter isWait (finish trN)) =
             length (filter isWait []) + 2 * unat (3::byte) + 2
         \<and> length (filter isSwitchOn (finish trN)) =
             length (filter isSwitchOn [])
             + length (filter (\<lambda>hz. hz \<noteq> NOTE_REST) (take (unat (3::byte)) ?notes))
         \<and> (\<forall>pin\<in>set LED_PINS. pinLevel (finish trN) pin = Some False)
         \<and> sounding (finish trN) = None"
    by auto
  have l: "1 < unat (3::byte)" by simp
  from steps [rule_format, OF l] obtain dk tk dk' tk' mid post tot on off where s:
    "playNotes threeNoteCatalog 0 (uint (3::byte)) 312 (map int [0..<1]) ?disp0 ?tr1
       = Some (dk, tk)"
    "playNote threeNoteCatalog 0 (uint (3::byte)) 312 (int 1) dk tk = Some (dk', tk')"
    "playNotes threeNoteCatalog 0 (uint (3::byte)) 312 (map int [0..<Suc 1]) ?disp0 ?tr1
       = Some (dk', tk')"
    "noteTiming (?durs ! 1) 312 = (tot, on, off)"
    "tk' = tk @ mid @ Wait on # post"
    "filter isWait mid = []" "filter isWait post = [Wait off]"
    "length (filter isSwitchOn (mid @ Wait on # post)) =
       (if ?notes ! 1 \<noteq> NOTE_REST then 1 else 0)"
    "\<forall>pin\<in>set LED_PINS. pinLevel tk pin = Some False"
    "sounding tk = None"
    "?notes ! 1 \<noteq> NOTE_REST \<longrightarrow>
       (\<forall>pin\<in>set LED_PINS.
           pinLevel (tk @ mid) pin = Some (pin = LED_PINS ! min (unat (?leds ! 1)) 4))
       \<and> sounding (tk @ mid) = Some (?notes ! 1)"
    "\<forall>pin\<in>set LED_PINS. pinLevel tk' pin = Some False"
    "sounding tk' = None"
    by (elim exE conjE) (rule that)
  have tm: "tot = 624" "on = 580" "off = 44"
    using s(4) [unfolded three_nth1 noteTiming_2_312] by simp_all
  have before: "pinLevel tk 4 = Some False" "pinLevel tk 5 = Some False"
    "pinLevel tk 6 = Some False" "pinLevel tk 7 = Some False" "pinLevel tk 8 = Some False"
    using s(9) by (simp_all add: LED_PINS_def)
  have during: "pinLevel (tk @ mid) 4 = Some False" "pinLevel (tk @ mid) 5 = Some False"
    "pinLevel (tk @ mid) 6 = Some False" "pinLevel (tk @ mid) 7 = Some False"
    "pinLevel (tk @ mid) 8 = Some True" "sounding (tk @ mid) = Some NOTE_E4"
    using s(11) [unfolded three_nth1] by (simp_all add: LED_PINS_def)
  have after: "pinLevel tk' 4 = Some False" "pinLevel tk' 5 = Some False"
    "pinLevel tk' 6 = Some False" "pinLevel tk' 7 = Some False" "pinLevel tk' 8 = Some False"
    using s(12) by (simp_all add: LED_PINS_def)
  have once: "length (filter isSwitchOn (mid @ Wait 580 # post)) = 1"
    using s(8) [unfolded three_nth1] by (simp add: tm)
  have cyc: "playNotes threeNoteCatalog 0 (uint (3::byte)) 312 (map int [0..<1]) ?disp0 ?tr1
           = Some (dk, tk)
         \<and> playNote threeNoteCatalog 0 (uint (3::byte)) 312 (int 1) dk tk = Some (dk', tk')
         \<and> playNotes threeNoteCatalog 0 (uint (3::byte)) 312 (map int [0..<Suc 1]) ?disp0 ?tr1
           = Some (dk', tk')
         \<and> tk' = tk @ mid @ Wait 580 # post
         \<and> filter isWait mid = [] \<and> filter isWait post = [Wait 44]
         \<and> length (filter isSwitchOn (mid @ Wait 580 # post)) = 1
         \<and> pinLevel tk 4 = Some False \<and> pinLevel tk 5 = Some False
         \<and> pinLevel tk 6 = Some False \<and> pinLevel tk 7 = Some False
         \<and> pinLevel tk 8 = Some False \<and> sounding tk = None
         \<and> pinLevel (tk @ mid) 4 = Some False \<and> pinLevel (tk @ mid) 5 = Some False
         \<and> pinLevel (tk @ mid) 6 = Some False \<and> pinLevel (tk @ mid) 7 = Some False
         \<and> pinLevel (tk @ mid) 8 = Some True \<and> sounding (tk @ mid) = Some NOTE_E4
         \<and> pinLevel tk' 4 = Some False \<and> pinLevel tk' 5 = Some False
         \<and> pinLevel tk' 6 = Some False \<and> pinLevel tk' 7 = Some False
         \<and> pinLevel tk' 8 = Some False \<and> sounding tk' = None"
    using s(1,2,3,5,6,7,10,13) tm before during after once by simp
  have c1: "\<exists>dk tk dk' tk' mid post.
         playNotes threeNoteCatalog 0 (uint (3::byte)) 312 (map int [0..<1]) ?disp0 ?tr1
           = Some (dk, tk)
         \<and> playNote threeNoteCatalog 0 (uint (3::byte)) 312 (int 1) dk tk = Some (dk', tk')
         \<and> playNotes threeNoteCatalog 0 (uint (3::byte)) 312 (map int [0..<Suc 1]) ?disp0 ?tr1
           = Some (dk', tk')
         \<and> tk' = tk @ mid @ Wait 580 # post
         \<and> filter isWait mid = [] \<and> filter isWait post = [Wait 44]
         \<and> length (filter isSwitchOn (mid @ Wait 580 # post)) = 1
         \<and> pinLevel tk 4 = Some False \<and> pinLevel tk 5 = Some False
         \<and> pinLevel tk 6 = Some False \<and> pinLevel tk 7 = Some False
         \<and> pinLevel tk 8 = Some False \<and> sounding tk = None
         \<and> pinLevel (tk @ mid) 4 = Some False \<and> pinLevel (tk @ mid) 5 = Some False
         \<and> pinLevel (tk @ mid) 6 = Some False \<and> pinLevel (tk @ mid) 7 = Some False
         \<and> pinLevel (tk @ mid) 8 = Some True \<and> sounding (tk @ mid) = Some NOTE_E4
         \<and> pinLevel tk' 4 = Some False \<and> pinLevel tk' 5 = Some False
         \<and> pinLevel tk' 6 = Some False \<and> pinLevel tk' 7 = Some False
         \<and> pinLevel tk' 8 = Some False \<and> sounding tk' = None"
    using cyc by blast
  from whole obtain disp trN where r:
    "playSong threeNoteCatalog 0 [] = Some (finish trN)"
    "length (filter isWait (finish trN)) = length (filter isWait []) + 2 * unat (3::byte) + 2"
    "length (filter isSwitchOn (finish trN)) =
       length (filter isSwitchOn [])
       + length (filter (\<lambda>hz. hz \<noteq> NOTE_REST) (take (unat (3::byte)) ?notes))"
    "\<forall>pin\<in>set LED_PINS. pinLevel (finish trN) pin = Some False"
    "sounding (finish trN) = None"
    by blast
  have w: "length (filter isWait (finish trN)) = 8" using r(2) by simp
  have sw: "length (filter isSwitchOn (finish trN)) = 3"
    using r(3) by (simp add: zeroFill_def)
  have p: "pinLevel (finish trN) 4 = Some False" "pinLevel (finish trN) 5 = Some False"
    "pinLevel (finish trN) 6 = Some False" "pinLevel (finish trN) 7 = Some False"
    "pinLevel (finish trN) 8 = Some False"
    using r(4) by (simp_all add: LED_PINS_def)
  have c2: "\<exists>tr'. playSong threeNoteCatalog 0 [] = Some tr'
         \<and> length (filter isWait tr') = 8
         \<and> length (filter isSwitchOn tr') = 3
         \<and> pinLevel tr' 4 = Some False \<and> pinLevel tr' 5 = Some False
         \<and> pinLevel tr' 6 = Some False \<and> pinLevel tr' 7 = Some False
         \<and> pinLevel tr' 8 = Some False
         \<and> sounding tr' = None"
    using r(1,5) w sw p by blast
  show ?thesis
    by (intro conjI three_len h3 h4 h5 three_notes three_lengths three_row
        three_row_terminated u noteTiming_2_312 c1 c2)
qed

section \<open>The lyric line never moves backwards\<close>

text \<open>
  Claim C10. On a row of note counts that contains the zero terminator, the line index
  returned by \<open>getLineInfoFromNotesPlayed\<close> is monotonically non-decreasing in
  \<open>notesPlayed\<close>: for \<open>0 \<le> n \<le> m\<close> both calls return, with line indices \<open>a\<close> for
  \<open>n\<close> and \<open>b\<close> for \<open>m\<close>, and \<open>a \<le> b\<close>.

  Consequently the lyric line displayed during playback never moves backwards. Whenever
  the song is playable, its tracks hold \<open>melodyLen\<close> entries and \<open>m\<close> is a note of the
  song, the run of \<open>playSong\<close> passes through a state \<open>(dn, tn)\<close> after note \<open>n\<close>, then
  through a state \<open>(dm, tm)\<close> after note \<open>m\<close>, reached from \<open>(dn, tn)\<close> by playing the
  notes in between, and from there runs to its end. After note \<open>n\<close> the engine records
  line \<open>a\<close> as displayed and the display shows line \<open>a\<close> (on its first row, line
  \<open>a + 1\<close> on the second); after note \<open>m\<close> it records and shows line \<open>b\<close>. With
  \<open>a \<le> b\<close>, the line shown later is never an earlier line.
\<close>

theorem lineIndex_monotone:
  assumes "rd (lineNoteCounts cat) (uint songIdx) = Some row"
    and "terminated row"
    and "0 \<le> n" and "n \<le> m"
  shows "\<exists>a b sa ca sb cb.
           getLineInfoFromNotesPlayed cat songIdx n totalNotes = Some (int a, sa, ca)
           \<and> getLineInfoFromNotesPlayed cat songIdx m totalNotes = Some (int b, sb, cb)
           \<and> a \<le> b
           \<and> (\<forall>len bpm unitMs notes durs leds tr.
                 rd (melodyLen cat) (uint songIdx) = Some len
                 \<and> rd (tempoBPM cat) (uint songIdx) = Some bpm
                 \<and> 0 < bpm \<and> eighthMs bpm = Some unitMs
                 \<and> rd (melodyNotes cat) (uint songIdx) = Some notes
                 \<and> unat len \<le> length notes
                 \<and> rd (durationUnits cat) (uint songIdx) = Some durs
                 \<and> unat len \<le> length durs
                 \<and> rd (ledIndex cat) (uint songIdx) = Some leds
                 \<and> unat len \<le> length leds
                 \<and> m < uint len
                 \<longrightarrow> (\<exists>dn tn dm tm dl tl.
                       playNotes cat songIdx (uint len) unitMs (map int [0..<Suc (nat n)])
                           \<lparr> lastLineDisplayed = - 999, top_buf = replicate 17 NUL,
                             bot_buf = replicate 17 NUL \<rparr>
                           (noTone BUZZER_PIN (allLEDsOff (lcdClear (announce songIdx tr))))
                         = Some (dn, tn)
                       \<and> playNotes cat songIdx (uint len) unitMs
                           (map int [Suc (nat n)..<Suc (nat m)]) dn tn = Some (dm, tm)
                       \<and> playNotes cat songIdx (uint len) unitMs
                           (map int [Suc (nat m)..<unat len]) dm tm = Some (dl, tl)
                       \<and> playSong cat songIdx tr = Some (finish tl)
                       \<and> lastLineDisplayed dn = int a \<and> displays cat songIdx tn a
                       \<and> lastLineDisplayed dm = int b \<and> displays cat songIdx tm b))"
proof -
  note row = assms(1) and trm = assms(2)
  from getLineInfo_terminated [OF row trm, of n totalNotes]
  obtain a where a:
    "\<exists>sa ca. getLineInfoFromNotesPlayed cat songIdx n totalNotes = Some (int a, sa, ca)"
    "firstStop row n a"
    by blast
  from getLineInfo_terminated [OF row trm, of m totalNotes]
  obtain b where b:
    "\<exists>sb cb. getLineInfoFromNotesPlayed cat songIdx m totalNotes = Some (int b, sb, cb)"
    "firstStop row m b"
    by blast
  have le: "a \<le> b" using a(2) b(2) assms(4) by (rule firstStop_mono)
  let ?disp0 = "\<lparr> lastLineDisplayed = - 999, top_buf = replicate 17 NUL,
                   bot_buf = replicate 17 NUL \<rparr>"
  have shown: "\<exists>dn tn dm tm dl tl.
        playNotes cat songIdx (uint len) unitMs (map int [0..<Suc (nat n)]) ?disp0
            (noTone BUZZER_PIN (allLEDsOff (lcdClear (announce songIdx tr)))) = Some (dn, tn)
        \<and> playNotes cat songIdx (uint len) unitMs
            (map int [Suc (nat n)..<Suc (nat m)]) dn tn = Some (dm, tm)
        \<and> playNotes cat songIdx (uint len) unitMs
            (map int [Suc (nat m)..<unat len]) dm tm = Some (dl, tl)
        \<and> playSong cat songIdx tr = Some (finish tl)
        \<and> lastLineDisplayed dn = int a \<and> displays cat songIdx tn a
        \<and> lastLineDisplayed dm = int b \<and> displays cat songIdx tm b"
    if len: "rd (melodyLen cat) (uint songIdx) = Some len"
      and bpm: "rd (tempoBPM cat) (uint songIdx) = Some bpm"
      and pos: "0 < bpm" and u: "eighthMs bpm = Some unitMs"
      and nts: "rd (melodyNotes cat) (uint songIdx) = Some mel" "unat len \<le> length mel"
      and durs: "rd (durationUnits cat) (uint songIdx) = Some dur" "unat len \<le> length dur"
      and leds: "rd (ledIndex cat) (uint songIdx) = Some led" "unat len \<le> length led"
      and ml: "m < uint len"
    for len bpm unitMs mel dur led tr
  proof -
    let ?tr1 = "noTone BUZZER_PIN (allLEDsOff (lcdClear (announce songIdx tr)))"
    have t: "17 \<le> length (top_buf ?disp0)" and bb: "17 \<le> length (bot_buf ?disp0)"
      and fresh: "lastLineDisplayed ?disp0 < 0" by simp_all
    note run = playNotes_run [OF row trm nts(1) durs(1) leds(1) t bb fresh
        setup_state [of songIdx tr], of _ "uint len" unitMs]
    have ul: "uint len = int (unat len)" by simp
    have mn: "Suc (nat m) \<le> unat len" using ml assms(3,4) ul by linarith
    have nm: "Suc (nat n) \<le> Suc (nat m)" using assms(3,4) by simp
    have kn: "Suc (nat n) \<le> length mel" "Suc (nat n) \<le> length dur"
      "Suc (nat n) \<le> length led"
      and km: "Suc (nat m) \<le> length mel" "Suc (nat m) \<le> length dur"
      "Suc (nat m) \<le> length led"
      and kl: "unat len \<le> length mel" "unat len \<le> length dur" "unat len \<le> length led"
      using mn nm nts(2) durs(2) leds(2) by simp_all
    have pn: "0 < Suc (nat n)" and pm: "0 < Suc (nat m)" by simp_all
    from run [OF kn] obtain dn tn where rn0:
      "playNotes cat songIdx (uint len) unitMs (map int [0..<Suc (nat n)]) ?disp0 ?tr1
         = Some (dn, tn)"
      "0 < Suc (nat n) \<longrightarrow> (\<exists>a. firstStop row (int (Suc (nat n) - 1)) a
           \<and> lastLineDisplayed dn = int a \<and> displays cat songIdx tn a)"
      by blast
    from rn0(2) pn obtain a' where rn:
      "firstStop row (int (Suc (nat n) - 1)) a'"
      "lastLineDisplayed dn = int a'" "displays cat songIdx tn a'"
      by blast
    from run [OF km] obtain dm tm where rm0:
      "playNotes cat songIdx (uint len) unitMs (map int [0..<Suc (nat m)]) ?disp0 ?tr1
         = Some (dm, tm)"
      "0 < Suc (nat m) \<longrightarrow> (\<exists>a. firstStop row (int (Suc (nat m) - 1)) a
           \<and> lastLineDisplayed dm = int a \<and> displays cat songIdx tm a)"
      by blast
    from rm0(2) pm obtain b' where rm:
      "firstStop row (int (Suc (nat m) - 1)) b'"
      "lastLineDisplayed dm = int b'" "displays cat songIdx tm b'"
      by blast
    from run [OF kl] obtain dl tl where rl:
      "playNotes cat songIdx (uint len) unitMs (map int [0..<unat len]) ?disp0 ?tr1
         = Some (dl, tl)"
      by blast
    have "int (Suc (nat n) - 1) = n" using assms(3) by simp
    with rn(1) have "firstStop row n a'" by simp
    then have ea: "a' = a" using a(2) by (rule firstStop_unique)
    have "int (Suc (nat m) - 1) = m" using assms(3,4) by simp
    with rm(1) have "firstStop row m b'" by simp
    then have eb: "b' = b" using b(2) by (rule firstStop_unique)
    have s1: "playNotes cat songIdx (uint len) unitMs (map int [Suc (nat n)..<Suc (nat m)]) dn tn
                = Some (dm, tm)"
      using nm rn0(1) rm0(1) by (rule playNotes_split)
    have s2: "playNotes cat songIdx (uint len) unitMs (map int [Suc (nat m)..<unat len]) dm tm
                = Some (dl, tl)"
      using mn rm0(1) rl by (rule playNotes_split)
    have pl: "0 < uint len" using ml assms(3,4) by linarith
    have song: "playSong cat songIdx tr = Some (finish tl)"
      using len bpm pl pos u rl by (rule playSong_eq)
    show ?thesis
      using rn0(1) rn(2,3) rm(2,3) s1 s2 song ea eb by blast
  qed
  from a(1) b(1) obtain sa ca sb cb where g:
    "getLineInfoFromNotesPlayed cat songIdx n totalNotes = Some (int a, sa, ca)"
    "getLineInfoFromNotesPlayed cat songIdx m totalNotes = Some (int b, sb, cb)"
    by blast
  show ?thesis
    apply (rule exI [of _ a], rule exI [of _ b], rule exI [of _ sa], rule exI [of _ ca],
        rule exI [of _ sb], rule exI [of _ cb])
    apply (intro conjI allI impI g le)
    apply (elim conjE)
    apply (rule shown; assumption)
    done
qed

text \<open>
  The instance: the three-note song, one note per line, lines \<open>A\<close>, \<open>BB\<close>, \<open>CCC\<close>.
  After note 0 the display shows line 0, after note 2 it shows line 2.
\<close>

theorem lineIndex_monotone_witness:
  "rd (lineNoteCounts threeNoteCatalog) (uint (0::byte))
       = Some (zeroFill (unat MAX_LINES) [1, 1, 1, 0])
   \<and> terminated (zeroFill (unat MAX_LINES) [1, 1, 1, 0 :: byte])
   \<and> (0::int) \<le> 0 \<and> (0::int) \<le> 2
   \<and> getLineInfoFromNotesPlayed threeNoteCatalog 0 0 3 = Some (0, 0, 1)
   \<and> getLineInfoFromNotesPlayed threeNoteCatalog 0 2 3 = Some (2, 2, 1)
   \<and> rd (melodyLen threeNoteCatalog) (uint (0::byte)) = Some 3
   \<and> rd (tempoBPM threeNoteCatalog) (uint (0::byte)) = Some 96
   \<and> (0::int) < 96 \<and> eighthMs 96 = Some 312
   \<and> rd (melodyNotes threeNoteCatalog) (uint (0::byte))
       = Some (zeroFill (nat MAX_NOTES) [NOTE_C4, NOTE_E4, NOTE_G4])
   \<and> unat (3::byte) \<le> length (zeroFill (nat MAX_NOTES) [NOTE_C4, NOTE_E4, NOTE_G4])
   \<and> rd (durationUnits threeNoteCatalog) (uint (0::byte))
       = Some (zeroFill (nat MAX_NOTES) [2, 2, 4])
   \<and> unat (3::byte) \<le> length (zeroFill (nat MAX_NOTES) [2, 2, 4 :: byte])
   \<and> rd (ledIndex threeNoteCatalog) (uint (0::byte))
       = Some (zeroFill (nat MAX_NOTES) [0, 7, 2])
   \<and> unat (3::byte) \<le> length (zeroFill (nat MAX_NOTES) [0, 7, 2 :: byte])
   \<and> (2::int) < uint (3::byte)
   \<and> lineText threeNoteCatalog 0 0 = ''A'' \<and> lineText threeNoteCatalog 0 1 = ''BB''
   \<and> lineText threeNoteCatalog 0 2 = ''CCC'' \<and> lineText threeNoteCatalog 0 3 = ''''
   \<and> (\<exists>dn tn dm tm dl tl.
         playNotes threeNoteCatalog 0 (uint (3::byte)) 312 (map int [0..<Suc (nat 0)])
             \<lparr> lastLineDisplayed = - 999, top_buf = replicate 17 NUL,
               bot_buf = replicate 17 NUL \<rparr>
             (noTone BUZZER_PIN (allLEDsOff (lcdClear (announce 0 [])))) = Some (dn, tn)
         \<and> playNotes threeNoteCatalog 0 (uint (3::byte)) 312
             (map int [Suc (nat 0)..<Suc (nat 2)]) dn tn = Some (dm, tm)
         \<and> playNotes threeNoteCatalog 0 (uint (3::byte)) 312
             (map int [Suc (nat 2)..<unat (3::byte)]) dm tm = Some (dl, tl)
         \<and> playSong threeNoteCatalog 0 [] = Some (finish tl)
         \<and> lastLineDisplayed dn = 0 \<and> displays threeNoteCatalog 0 tn 0
         \<and> lastLineDisplayed dm = 2 \<and> displays threeNoteCatalog 0 tm 2)"
proof -
  have h3: "(0::int) \<le> 0" and h4: "(0::int) \<le> 2" and h5: "(0::int) < 96"
    and h6: "(2::int) < uint (3::byte)" by simp_all
  have u: "eighthMs 96 = Some 312" by (simp add: eighthMs_def)
  from lineIndex_monotone [OF three_row three_row_terminated h3 h4, of 3]
  obtain a b sa ca sb cb where g:
    "getLineInfoFromNotesPlayed threeNoteCatalog 0 0 3 = Some (int a, sa, ca)"
    "getLineInfoFromNotesPlayed threeNoteCatalog 0 2 3 = Some (int b, sb, cb)"
    and d: "\<forall>len bpm unitMs notes durs leds tr.
        rd (melodyLen threeNoteCatalog) (uint (0::byte)) = Some len
        \<and> rd (tempoBPM threeNoteCatalog) (uint (0::byte)) = Some bpm
        \<and> 0 < bpm \<and> eighthMs bpm = Some unitMs
        \<and> rd (melodyNotes threeNoteCatalog) (uint (0::byte)) = Some notes
        \<and> unat len \<le> length notes
        \<and> rd (durationUnits threeNoteCatalog) (uint (0::byte)) = Some durs
        \<and> unat len \<le> length durs
        \<and> rd (ledIndex threeNoteCatalog) (uint (0::byte)) = Some leds
        \<and> unat len \<le> length leds
        \<and> 2 < uint len
        \<longrightarrow> (\<exists>dn tn dm tm dl tl.
              playNotes threeNoteCatalog 0 (uint len) unitMs (map int [0..<Suc (nat 0)])
                  \<lparr> lastLineDisplayed = - 999, top_buf = replicate 17 NUL,
                    bot_buf = replicate 17 NUL \<rparr>
                  (noTone BUZZER_PIN (allLEDsOff (lcdClear (announce 0 tr)))) = Some (dn, tn)
              \<and> playNotes threeNoteCatalog 0 (uint len) unitMs
                  (map int [Suc (nat 0)..<Suc (nat 2)]) dn tn = Some (dm, tm)
              \<and> playNotes threeNoteCatalog 0 (uint len) unitMs
                  (map int [Suc (nat 2)..<unat len]) dm tm = Some (dl, tl)
              \<and> playSong threeNoteCatalog 0 tr = Some (finish tl)
              \<and> lastLineDisplayed dn = int a \<and> displays threeNoteCatalog 0 tn a
              \<and> lastLineDisplayed dm = int b \<and> displays threeNoteCatalog 0 tm b)"
    by (elim exE conjE) (rule that)
  have a0: "a = 0" using g(1) three_index(1) by simp
  have b2: "b = 2" using g(2) three_index(2) by simp
  have pre: "rd (melodyLen threeNoteCatalog) (uint (0::byte)) = Some 3
        \<and> rd (tempoBPM threeNoteCatalog) (uint (0::byte)) = Some 96
        \<and> (0::int) < 96 \<and> eighthMs 96 = Some 312
        \<and> rd (melodyNotes threeNoteCatalog) (uint (0::byte))
            = Some (zeroFill (nat MAX_NOTES) [NOTE_C4, NOTE_E4, NOTE_G4])
        \<and> unat (3::byte) \<le> length (zeroFill (nat MAX_NOTES) [NOTE_C4, NOTE_E4, NOTE_G4])
        \<and> rd (durationUnits threeNoteCatalog) (uint (0::byte))
            = Some (zeroFill (nat MAX_NOTES) [2, 2, 4])
        \<and> unat (3::byte) \<le> length (zeroFill (nat MAX_NOTES) [2, 2, 4 :: byte])
        \<and> rd (ledIndex threeNoteCatalog) (uint (0::byte))
            = Some (zeroFill (nat MAX_NOTES) [0, 7, 2])
        \<and> unat (3::byte) \<le> length (zeroFill (nat MAX_NOTES) [0, 7, 2 :: byte])
        \<and> (2::int) < uint (3::byte)"
    by (intro conjI three_len h5 u three_notes three_lengths h6)
  from d [rule_format, OF pre, of "[]"]
  have c: "\<exists>dn tn dm tm dl tl.
         playNotes threeNoteCatalog 0 (uint (3::byte)) 312 (map int [0..<Suc (nat 0)])
             \<lparr> lastLineDisplayed = - 999, top_buf = replicate 17 NUL,
               bot_buf = replicate 17 NUL \<rparr>
             (noTone BUZZER_PIN (allLEDsOff (lcdClear (announce 0 [])))) = Some (dn, tn)
         \<and> playNotes threeNoteCatalog 0 (uint (3::byte)) 312
             (map int [Suc (nat 0)..<Suc (nat 2)]) dn tn = Some (dm, tm)
         \<and> playNotes threeNoteCatalog 0 (uint (3::byte)) 312
             (map int [Suc (nat 2)..<unat (3::byte)]) dm tm = Some (dl, tl)
         \<and> playSong threeNoteCatalog 0 [] = Some (finish tl)
         \<and> lastLineDisplayed dn = 0 \<and> displays threeNoteCatalog 0 tn 0
         \<and> lastLineDisplayed dm = 2 \<and> displays threeNoteCatalog 0 tm 2"
    unfolding a0 b2 by simp
  show ?thesis
    by (intro conjI three_row three_row_terminated h3 h4 three_index three_len h5 u
        three_notes three_lengths h6 three_lines c)
qed

section \<open>The split of a note into sounding time and gap\<close>

text \<open>
  Claim C3, as the code has it. For every duration \<open>durU\<close> and unit length \<open>unitMs\<close>
  the timing of a note is \<open>(noteTotal, noteOnMs, noteOffMs)\<close> with \<open>noteTotal\<close> the
  product \<open>durU * unitMs\<close> (or 1 when the product is zero), \<open>noteOffMs = noteTotal -
  noteOnMs\<close> and \<open>noteOnMs + noteOffMs = noteTotal\<close>. The sounding time never exceeds
  the note, so the identity also holds for the numbers read without wrap-around: no
  time is lost or gained.

  The sounding time is the single-precision product \<open>(float) noteTotal * GATE\<close>,
  truncated. It is \<open>floor (noteTotal * 0.93)\<close> whenever \<open>noteTotal < 281943\<close>, which is
  the case for every note of a song at 28 beats per minute or faster. (A longer note, where it is one more, is shown after the instance.)

  These are the times the engine waits: on a terminated row, with the three tracks
  readable at the note and display buffers of 17 bytes, the step \<open>playNote\<close> of a note
  of duration \<open>durU\<close> returns, and the waits among its events are \<open>Wait noteOnMs\<close>
  followed by \<open>Wait noteOffMs\<close>.
\<close>

theorem noteTiming_split:
  "\<exists>noteTotal noteOnMs noteOffMs.
     noteTiming durU unitMs = (noteTotal, noteOnMs, noteOffMs)
     \<and> noteTotal = (if ucast durU * unitMs = 0 then 1 else ucast durU * unitMs)
     \<and> noteOffMs = noteTotal - noteOnMs
     \<and> noteOnMs + noteOffMs = noteTotal
     \<and> unat noteOnMs \<le> unat noteTotal
     \<and> unat noteOnMs + unat noteOffMs = unat noteTotal
     \<and> (unat noteTotal < 281943 \<longrightarrow>
           unat noteOnMs = unat noteTotal * 93 div 100
         \<and> int (unat noteOnMs) = \<lfloor>real (unat noteTotal) * 0.93\<rfloor>)
     \<and> (\<forall>bpm. 28 \<le> bpm \<and> bpm \<le> INT_MAX \<and> eighthMs bpm = Some unitMs
           \<longrightarrow> unat noteTotal < 281943)
     \<and> (\<forall>cat songIdx row n noteHz v disp totalNotes tr.
           rd (lineNoteCounts cat) (uint songIdx) = Some row \<and> terminated row
           \<and> rd2 (melodyNotes cat) (uint songIdx) n = Some noteHz
           \<and> rd2 (durationUnits cat) (uint songIdx) n = Some durU
           \<and> rd2 (ledIndex cat) (uint songIdx) n = Some v
           \<and> 17 \<le> length (top_buf disp) \<and> 17 \<le> length (bot_buf disp)
           \<longrightarrow> (\<exists>disp' mid post.
                 playNote cat songIdx totalNotes unitMs n disp tr =
                   Some (disp', tr @ mid @ Wait noteOnMs # post)
                 \<and> filter isWait mid = [] \<and> filter isWait post = [Wait noteOffMs]))"
proof -
  define noteTotal :: ulong where
    "noteTotal = (if ucast durU * unitMs = 0 then 1 else ucast durU * unitMs)"
  let ?on = "gateOn noteTotal"
  let ?off = "noteTotal - ?on"
  have tm: "noteTiming durU unitMs = (noteTotal, ?on, ?off)"
    by (simp add: noteTiming_def Let_def noteTotal_def)
  have sum: "?on + ?off = noteTotal" by simp
  have le: "unat ?on \<le> unat noteTotal" by (rule gateOn_le)
  then have "?on \<le> noteTotal" by (simp add: word_le_nat_alt)
  then have "unat ?off = unat noteTotal - unat ?on" by (rule unat_sub)
  then have nowrap: "unat ?on + unat ?off = unat noteTotal" using le by simp
  have small: "unat ?on = unat noteTotal * 93 div 100
         \<and> int (unat ?on) = \<lfloor>real (unat noteTotal) * 0.93\<rfloor>"
    if b: "unat noteTotal < 281943"
  proof -
    let ?n = "unat noteTotal"
    have on: "unat ?on = ?n * 93 div 100" using b by (rule gateOn_floor)
    have "\<lfloor>real ?n * 0.93\<rfloor> = \<lfloor>real (?n * 93) / real 100\<rfloor>" by simp
    also have "\<dots> = int (?n * 93 div 100)" by (rule floor_divide_of_nat_eq)
    finally have "int (unat ?on) = \<lfloor>real ?n * 0.93\<rfloor>" using on by simp
    with on show ?thesis by simp
  qed
  have tempo: "unat noteTotal < 281943"
    if "28 \<le> bpm \<and> bpm \<le> INT_MAX \<and> eighthMs bpm = Some unitMs" for bpm
    unfolding noteTotal_def using that by (intro noteTotal_small [of bpm]) simp_all
  have step: "\<exists>disp' mid post.
        playNote cat songIdx totalNotes unitMs n disp tr =
          Some (disp', tr @ mid @ Wait ?on # post)
        \<and> filter isWait mid = [] \<and> filter isWait post = [Wait ?off]"
    if h: "rd (lineNoteCounts cat) (uint songIdx) = Some row \<and> terminated row
           \<and> rd2 (melodyNotes cat) (uint songIdx) n = Some noteHz
           \<and> rd2 (durationUnits cat) (uint songIdx) n = Some durU
           \<and> rd2 (ledIndex cat) (uint songIdx) n = Some v
           \<and> 17 \<le> length (top_buf disp) \<and> 17 \<le> length (bot_buf disp)"
    for cat songIdx row n noteHz v disp totalNotes tr
  proof -
    from h have row: "rd (lineNoteCounts cat) (uint songIdx) = Some row"
      and trm: "terminated row"
      and hz: "rd2 (melodyNotes cat) (uint songIdx) n = Some noteHz"
      and du: "rd2 (durationUnits cat) (uint songIdx) n = Some durU"
      and li: "rd2 (ledIndex cat) (uint songIdx) n = Some v"
      and t: "17 \<le> length (top_buf disp)" and b: "17 \<le> length (bot_buf disp)"
      by simp_all
    from playNote_cycle [OF row trm hz du li t b tm, of totalNotes tr]
    show ?thesis by blast
  qed
  have "noteTiming durU unitMs = (noteTotal, ?on, ?off)
     \<and> noteTotal = (if ucast durU * unitMs = 0 then 1 else ucast durU * unitMs)
     \<and> ?off = noteTotal - ?on
     \<and> ?on + ?off = noteTotal
     \<and> unat ?on \<le> unat noteTotal
     \<and> unat ?on + unat ?off = unat noteTotal
     \<and> (unat noteTotal < 281943 \<longrightarrow>
           unat ?on = unat noteTotal * 93 div 100
         \<and> int (unat ?on) = \<lfloor>real (unat noteTotal) * 0.93\<rfloor>)
     \<and> (\<forall>bpm. 28 \<le> bpm \<and> bpm \<le> INT_MAX \<and> eighthMs bpm = Some unitMs
           \<longrightarrow> unat noteTotal < 281943)
     \<and> (\<forall>cat songIdx row n noteHz v disp totalNotes tr.
           rd (lineNoteCounts cat) (uint songIdx) = Some row \<and> terminated row
           \<and> rd2 (melodyNotes cat) (uint songIdx) n = Some noteHz
           \<and> rd2 (durationUnits cat) (uint songIdx) n = Some durU
           \<and> rd2 (ledIndex cat) (uint songIdx) n = Some v
           \<and> 17 \<le> length (top_buf disp) \<and> 17 \<le> length (bot_buf disp)
           \<longrightarrow> (\<exists>disp' mid post.
                 playNote cat songIdx totalNotes unitMs n disp tr =
                   Some (disp', tr @ mid @ Wait ?on # post)
                 \<and> filter isWait mid = [] \<and> filter isWait post = [Wait ?off]))"
    apply (intro conjI allI impI)
    apply (rule tm)
    apply (rule noteTotal_def)
    apply (rule refl)
    apply (rule sum)
    apply (rule le)
    apply (rule nowrap)
    apply (erule small [THEN conjunct1])
    apply (erule small [THEN conjunct2])
    apply (erule tempo)
    apply (erule step)
    done
  then show ?thesis by blast
qed

text \<open>
  The instance: two units of 312 ms (tempo 96) make a note of 624 ms, split into 580 ms
  of sound and a gap of 44 ms; the second note of the three-note song waits these times.
\<close>

theorem noteTiming_split_witness:
  "noteTiming 2 312 = (624, 580, 44)
   \<and> (624::ulong) = (if ucast (2::byte) * (312::ulong) = 0 then 1 else ucast (2::byte) * 312)
   \<and> (44::ulong) = 624 - 580
   \<and> (580::ulong) + 44 = 624
   \<and> unat (580::ulong) \<le> unat (624::ulong)
   \<and> unat (580::ulong) + unat (44::ulong) = unat (624::ulong)
   \<and> unat (624::ulong) < 281943
   \<and> unat (580::ulong) = unat (624::ulong) * 93 div 100
   \<and> int (unat (580::ulong)) = \<lfloor>real (unat (624::ulong)) * 0.93\<rfloor>
   \<and> (28::int) \<le> 96 \<and> 96 \<le> INT_MAX \<and> eighthMs 96 = Some 312
   \<and> rd (lineNoteCounts threeNoteCatalog) (uint (0::byte))
       = Some (zeroFill (unat MAX_LINES) [1, 1, 1, 0])
   \<and> terminated (zeroFill (unat MAX_LINES) [1, 1, 1, 0 :: byte])
   \<and> rd2 (melodyNotes threeNoteCatalog) (uint (0::byte)) 1 = Some NOTE_E4
   \<and> rd2 (durationUnits threeNoteCatalog) (uint (0::byte)) 1 = Some 2
   \<and> rd2 (ledIndex threeNoteCatalog) (uint (0::byte)) 1 = Some 7
   \<and> 17 \<le> length (top_buf \<lparr> lastLineDisplayed = - 999, top_buf = replicate 17 NUL,
                               bot_buf = replicate 17 NUL \<rparr>)
   \<and> 17 \<le> length (bot_buf \<lparr> lastLineDisplayed = - 999, top_buf = replicate 17 NUL,
                               bot_buf = replicate 17 NUL \<rparr>)
   \<and> (\<exists>disp' mid post.
         playNote threeNoteCatalog 0 3 312 1
             \<lparr> lastLineDisplayed = - 999, top_buf = replicate 17 NUL,
               bot_buf = replicate 17 NUL \<rparr> []
           = Some (disp', [] @ mid @ Wait 580 # post)
         \<and> filter isWait mid = [] \<and> filter isWait post = [Wait 44])"
proof -
  let ?disp0 = "\<lparr> lastLineDisplayed = - 999, top_buf = replicate 17 NUL,
                   bot_buf = replicate 17 NUL \<rparr>"
  from noteTiming_split [of 2 312] obtain noteTotal noteOnMs noteOffMs where s:
    "noteTiming 2 312 = (noteTotal, noteOnMs, noteOffMs)"
    "noteTotal = (if ucast (2::byte) * (312::ulong) = 0 then 1 else ucast (2::byte) * 312)"
    "noteOffMs = noteTotal - noteOnMs"
    "noteOnMs + noteOffMs = noteTotal"
    "unat noteOnMs \<le> unat noteTotal"
    "unat noteOnMs + unat noteOffMs = unat noteTotal"
    "unat noteTotal < 281943 \<longrightarrow>
       unat noteOnMs = unat noteTotal * 93 div 100
       \<and> int (unat noteOnMs) = \<lfloor>real (unat noteTotal) * 0.93\<rfloor>"
    "\<forall>bpm. 28 \<le> bpm \<and> bpm \<le> INT_MAX \<and> eighthMs bpm = Some 312
       \<longrightarrow> unat noteTotal < 281943"
    "\<forall>cat songIdx row n noteHz v disp totalNotes tr.
       rd (lineNoteCounts cat) (uint songIdx) = Some row \<and> terminated row
       \<and> rd2 (melodyNotes cat) (uint songIdx) n = Some noteHz
       \<and> rd2 (durationUnits cat) (uint songIdx) n = Some 2
       \<and> rd2 (ledIndex cat) (uint songIdx) n = Some v
       \<and> 17 \<le> length (top_buf disp) \<and> 17 \<le> length (bot_buf disp)
       \<longrightarrow> (\<exists>disp' mid post.
             playNote cat songIdx totalNotes 312 n disp tr =
               Some (disp', tr @ mid @ Wait noteOnMs # post)
             \<and> filter isWait mid = [] \<and> filter isWait post = [Wait noteOffMs])"
    by (elim exE conjE) (rule that)
  have e: "noteTotal = 624" "noteOnMs = 580" "noteOffMs = 44"
    using s(1) by (simp_all add: noteTiming_2_312)
  have h1: "(28::int) \<le> 96" and h2: "96 \<le> INT_MAX" and u: "eighthMs 96 = Some 312"
    by (simp_all add: INT_MAX_def eighthMs_def)
  have b: "unat (624::ulong) < 281943"
    using s(8) [rule_format, of 96] h1 h2 u unfolding e by blast
  have t: "17 \<le> length (top_buf ?disp0)" and bb: "17 \<le> length (bot_buf ?disp0)" by simp_all
  have pre: "rd (lineNoteCounts threeNoteCatalog) (uint (0::byte))
         = Some (zeroFill (unat MAX_LINES) [1, 1, 1, 0])
       \<and> terminated (zeroFill (unat MAX_LINES) [1, 1, 1, 0 :: byte])
       \<and> rd2 (melodyNotes threeNoteCatalog) (uint (0::byte)) 1 = Some NOTE_E4
       \<and> rd2 (durationUnits threeNoteCatalog) (uint (0::byte)) 1 = Some 2
       \<and> rd2 (ledIndex threeNoteCatalog) (uint (0::byte)) 1 = Some 7
       \<and> 17 \<le> length (top_buf ?disp0) \<and> 17 \<le> length (bot_buf ?disp0)"
    by (intro conjI three_row three_row_terminated three_slot1 t bb)
  note c = s(9) [rule_format, OF pre, of 3 "[]", unfolded e]
  note f = s(7) [unfolded e, rule_format, OF b]
  show ?thesis
    by (intro conjI noteTiming_2_312 s(2) [unfolded e] s(3) [unfolded e] s(4) [unfolded e]
        s(5) [unfolded e] s(6) [unfolded e] b f [THEN conjunct1] f [THEN conjunct2]
        h1 h2 u three_row three_row_terminated three_slot1 t bb c)
qed

text \<open>
  The claim as it is written (the sounding time is the floor of \<open>noteTotal * 0.93\<close>
  for every note) fails for a long note: at tempo 11 a unit is 2727 ms, a note of 109
  units is 297243 ms long, and the engine waits 276436 ms and then 20807 ms, while the
  floor of \<open>297243 * 0.93\<close> is 276435. The single-precision product
  \<open>297243 * 15602811 / 2^24 = 276435.992\<dots>\<close> is rounded to 24 significant bits, to
  276436, before it is truncated.
\<close>

theorem gate_split_above_floor:
  "rd (tempoBPM slowNoteCatalog) (uint (0::byte)) = Some 11
   \<and> eighthMs 11 = Some 2727
   \<and> rd2 (durationUnits slowNoteCatalog) (uint (0::byte)) 0 = Some 109
   \<and> noteTiming 109 2727 = (297243, 276436, 20807)
   \<and> map_option (filter isWait \<circ> snd)
         (playNote slowNoteCatalog 0 3 2727 0
            \<lparr> lastLineDisplayed = - 999, top_buf = replicate 17 NUL,
              bot_buf = replicate 17 NUL \<rparr> [])
       = Some [Wait 276436, Wait 20807]
   \<and> (297243 * 93 div 100 :: nat) = 276435
   \<and> \<lfloor>real 297243 * 0.93\<rfloor> = 276435"
proof -
  let ?disp0 = "\<lparr> lastLineDisplayed = - 999, top_buf = replicate 17 NUL,
                   bot_buf = replicate 17 NUL \<rparr>"
  have "\<lfloor>real 297243 * 0.93\<rfloor> = \<lfloor>real (297243 * 93) / real 100\<rfloor>" by simp
  also have "\<dots> = int (297243 * 93 div 100)" by (rule floor_divide_of_nat_eq)
  finally have fl: "\<lfloor>real 297243 * 0.93\<rfloor> = 276435" by simp
  have t: "17 \<le> length (top_buf ?disp0)" and bb: "17 \<le> length (bot_buf ?disp0)" by simp_all
  from playNote_cycle [OF slow_reads(1) three_row_terminated slow_reads(3,4,5) t bb
      noteTiming_109_2727, of 3 "[]"]
  obtain disp' tr' mid post where c:
    "playNote slowNoteCatalog 0 3 2727 0 ?disp0 [] = Some (disp', tr')"
    "tr' = [] @ mid @ Wait 276436 # post"
    "filter isWait mid = []" "filter isWait post = [Wait 20807]"
    by blast
  have "filter isWait tr' = [Wait 276436, Wait 20807]"
    unfolding c(2) using c(3,4) by (rule two_waits)
  then have w: "map_option (filter isWait \<circ> snd) (playNote slowNoteCatalog 0 3 2727 0 ?disp0 [])
       = Some [Wait 276436, Wait 20807]"
    using c(1) by simp
  have d: "(297243 * 93 div 100 :: nat) = 276435" by simp
  show ?thesis
    by (intro conjI slow_reads(2) eighthMs_11 slow_reads(4) noteTiming_109_2727 w d fl)
qed

end
